theory Spec2Isabelle
  imports Main "HOL-Library.Log_Nat"
begin

section \<open>Python values used by the services\<close>

text \<open>
  Strings are lists of 8-bit characters. \<open>str.strip()\<close> without argument removes the
  characters for which \<open>str.isspace()\<close> holds; below code point 256 these are the
  twelve listed here.
\<close>

definition py_isspace :: "char \<Rightarrow> bool" where
  "py_isspace c = (of_char c \<in> {9, 10, 11, 12, 13, 28, 29, 30, 31, 32, 133, 160 :: nat})"

definition py_strip :: "string \<Rightarrow> string" where
  "py_strip s = rev (dropWhile py_isspace (rev (dropWhile py_isspace s)))"

text \<open>
  \<open>xs[i:j]\<close>: a negative bound counts from the end, every bound is clamped to
  \<open>[0, len(xs)]\<close>, and an upper bound below the lower one gives the empty slice.
\<close>

definition py_slice_index :: "int \<Rightarrow> int \<Rightarrow> nat" where
  "py_slice_index n i = nat (if i < 0 then max 0 (i + n) else min i n)"

definition py_slice :: "'a list \<Rightarrow> int \<Rightarrow> int \<Rightarrow> 'a list" where
  "py_slice xs i j =
     (let n = int (length xs); lo = py_slice_index n i; hi = py_slice_index n j
      in take (hi - lo) (drop lo xs))"

fun strip_prefix :: "'a list \<Rightarrow> 'a list \<Rightarrow> 'a list option" where
  "strip_prefix [] s = Some s"
| "strip_prefix (p # ps) [] = None"
| "strip_prefix (p # ps) (c # cs) = (if p = c then strip_prefix ps cs else None)"

definition py_startswith :: "string \<Rightarrow> string \<Rightarrow> bool" where
  "py_startswith s p = (strip_prefix p s \<noteq> None)"

text \<open>\<open>needle in s\<close> on strings: \<open>needle\<close> occurs as a contiguous substring.\<close>

fun py_in_str :: "string \<Rightarrow> string \<Rightarrow> bool" where
  "py_in_str needle [] = (needle = [])"
| "py_in_str needle (c # cs) =
     (strip_prefix needle (c # cs) \<noteq> None \<or> py_in_str needle cs)"

text \<open>
  \<open>s.replace(old, new)\<close> replaces every non-overlapping occurrence of \<open>old\<close>, scanning
  from the left. The counter is the number of characters of the occurrence just replaced
  that are still to be passed over.
\<close>

fun replace_scan :: "nat \<Rightarrow> string \<Rightarrow> string \<Rightarrow> string \<Rightarrow> string" where
  "replace_scan k old new [] = []"
| "replace_scan (Suc k) old new (c # cs) = replace_scan k old new cs"
| "replace_scan 0 old new (c # cs) =
     (if strip_prefix old (c # cs) \<noteq> None then new @ replace_scan (length old - 1) old new cs
      else c # replace_scan 0 old new cs)"

definition py_replace :: "string \<Rightarrow> string \<Rightarrow> string \<Rightarrow> string" where
  "py_replace s old new =
     (if old = [] then new @ concat (map (\<lambda>c. c # new) s)
      else replace_scan 0 old new s)"

text \<open>
  \<open>str.lower()\<close> on the ASCII letters. The dispatcher only compares the lowered suffix
  with ASCII literals, and no character outside \<open>A\<close>..\<open>Z\<close> lowers to an ASCII letter
  below code point 256.
\<close>

definition py_lower_char :: "char \<Rightarrow> char" where
  "py_lower_char c =
     (let n = (of_char c :: nat) in if 65 \<le> n \<and> n \<le> 90 then char_of (n + 32) else c)"

definition py_lower :: "string \<Rightarrow> string" where
  "py_lower s = map py_lower_char s"

text \<open>
  \<open>int(s)\<close> on a string: surrounding whitespace is ignored, one sign is allowed, and the
  digits may be grouped by single underscores. \<open>None\<close> stands for \<open>ValueError\<close>.
\<close>

definition digit_val :: "char \<Rightarrow> int option" where
  "digit_val c =
     (let n = (of_char c :: nat) in if 48 \<le> n \<and> n \<le> 57 then Some (int n - 48) else None)"

fun parse_digits :: "string \<Rightarrow> int \<Rightarrow> bool \<Rightarrow> int option" where
  "parse_digits [] acc prev = (if prev then Some acc else None)"
| "parse_digits (c # cs) acc prev =
     (if c = CHR ''_'' then (if prev \<and> cs \<noteq> [] then parse_digits cs acc False else None)
      else (case digit_val c of
              None \<Rightarrow> None
            | Some d \<Rightarrow> parse_digits cs (10 * acc + d) True))"

definition py_int :: "string \<Rightarrow> int option" where
  "py_int s =
     (case py_strip s of
        [] \<Rightarrow> None
      | c # cs \<Rightarrow>
          if c = CHR ''-'' then map_option uminus (parse_digits cs 0 False)
          else if c = CHR ''+'' then parse_digits cs 0 False
          else parse_digits (c # cs) 0 False)"

text \<open>
  JSON values as \<open>json.loads\<close> and \<open>response.json()\<close> deliver them. A number keeps its
  literal; an object keeps its members in order, and a lookup takes the last member
  with the key, as the dictionary built by the parser does.
\<close>

datatype json =
    JNull
  | JBool bool
  | JNum string
  | JStr string
  | JArr "json list"
  | JObj "(string \<times> json) list"

definition py_dict_get :: "(string \<times> json) list \<Rightarrow> string \<Rightarrow> json option" where
  "py_dict_get kvs k = map_of (rev kvs) k"

text \<open>
  Exceptions are values. Each constructor is one \<open>raise\<close> of the services or one
  exception of the interpreter; the string is the message.
\<close>

datatype error =
    FileNotFoundError string
  | ExtractionException string string
  | NoTextValueError string
  | EmbeddingException string
  | StorageException string
  | KeyError string
  | TypeError string
  | ImportError string

section \<open>TrainingService: configuration\<close>

record config =
  chunk_size :: int
  chunk_overlap :: int

text \<open>
  \<open>TrainingService.__init__\<close> copies \<open>CHUNK_SIZE\<close> and \<open>CHUNK_OVERLAP\<close>, two integers read
  from the environment, into the instance. It has no branch and raises nothing.
\<close>

definition TrainingService_init :: "int \<Rightarrow> int \<Rightarrow> config" where
  "TrainingService_init CHUNK_SIZE CHUNK_OVERLAP =
     \<lparr>chunk_size = CHUNK_SIZE, chunk_overlap = CHUNK_OVERLAP\<rparr>"

section \<open>TrainingService: chunking\<close>

record metadata =
  md_file_id :: string
  md_file_path :: string
  md_mime_type :: string

record chunk_metadata = metadata +
  md_chunk_start :: int
  md_chunk_end :: int

record chunk =
  c_text :: string
  c_metadata :: chunk_metadata

text \<open>\<open>metadata.copy()\<close> followed by the two assignments.\<close>

definition with_offsets :: "metadata \<Rightarrow> int \<Rightarrow> int \<Rightarrow> chunk_metadata" where
  "with_offsets md s e =
     \<lparr>md_file_id = md_file_id md, md_file_path = md_file_path md,
      md_mime_type = md_mime_type md, md_chunk_start = s, md_chunk_end = e\<rparr>"

text \<open>
  The \<open>while\<close> loop of \<open>_chunk_text\<close>. Nothing in the loop bounds the number of
  iterations, so the loop is a partial function: \<open>None\<close> is a run that never returns.
\<close>

partial_function (option) chunk_loop ::
  "int \<Rightarrow> int \<Rightarrow> string \<Rightarrow> metadata \<Rightarrow> int \<Rightarrow> chunk list \<Rightarrow> chunk list option" where
  "chunk_loop W V txt md start chunks =
     (if start < int (length txt) then
        (let end = start + W;
             ct = py_slice txt start end;
             chunks' = (if py_strip ct \<noteq> [] then
                          chunks @ [\<lparr>c_text = ct, c_metadata = with_offsets md start end\<rparr>]
                        else chunks)
         in chunk_loop W V txt md (end - V) chunks')
      else Some chunks)"

declare chunk_loop.simps [code]

definition chunk_text :: "config \<Rightarrow> string \<Rightarrow> metadata \<Rightarrow> chunk list option" where
  "chunk_text cfg txt md = chunk_loop (chunk_size cfg) (chunk_overlap cfg) txt md 0 []"

text \<open>
  The window that starts at \<open>start\<close>, and whether the loop keeps it. These two name the
  loop body for the statements below.
\<close>

definition window_at :: "int \<Rightarrow> string \<Rightarrow> metadata \<Rightarrow> int \<Rightarrow> chunk" where
  "window_at W txt md start =
     \<lparr>c_text = py_slice txt start (start + W),
      c_metadata = with_offsets md start (start + W)\<rparr>"

definition window_kept :: "int \<Rightarrow> string \<Rightarrow> int \<Rightarrow> bool" where
  "window_kept W txt start = (py_strip (py_slice txt start (start + W)) \<noteq> [])"

section \<open>TrainingService: extraction\<close>

datatype extractor = PdfText | DocxText | ExcelText | CsvText | JsonText | TextFile

text \<open>
  \<open>Path(file_path).suffix\<close> for POSIX paths: the name is the last component that is
  neither empty nor a single dot; the suffix starts at the last dot of the name when that
  dot is neither its first nor its last character.
\<close>

fun split_on :: "char \<Rightarrow> string \<Rightarrow> string \<Rightarrow> string list" where
  "split_on sep [] cur = [rev cur]"
| "split_on sep (c # cs) cur =
     (if c = sep then rev cur # split_on sep cs [] else split_on sep cs (c # cur))"

definition path_name :: "string \<Rightarrow> string" where
  "path_name p =
     (case filter (\<lambda>c. c \<noteq> [] \<and> c \<noteq> ''.'') (split_on CHR ''/'' p []) of
        [] \<Rightarrow> []
      | c # cs \<Rightarrow> last (c # cs))"

definition path_suffix :: "string \<Rightarrow> string" where
  "path_suffix p =
     (let name = path_name p;
          after = takeWhile (\<lambda>c. c \<noteq> CHR ''.'') (rev name);
          i = length name - length after - 1
      in if CHR ''.'' \<in> set name \<and> 0 < i \<and> i < length name - 1 then drop i name else [])"

text \<open>The \<open>if\<close>/\<open>elif\<close> chain of \<open>process_file\<close>, in the order of the source.\<close>

definition select_extractor :: "string \<Rightarrow> string \<Rightarrow> extractor" where
  "select_extractor file_ext mime_type =
     (if file_ext = ''.pdf'' \<or> mime_type = ''application/pdf'' then PdfText
      else if file_ext \<in> {''.docx'', ''.doc''} \<or> py_in_str ''wordprocessingml'' mime_type
              \<or> mime_type = ''application/msword'' then DocxText
      else if file_ext \<in> {''.xlsx'', ''.xls''} \<or> py_in_str ''spreadsheetml'' mime_type
              \<or> mime_type \<in> {''application/vnd.ms-excel'',
                   ''application/vnd.openxmlformats-officedocument.spreadsheetml.sheet''}
           then ExcelText
      else if file_ext = ''.csv'' \<or> mime_type = ''text/csv'' then CsvText
      else if file_ext = ''.json'' \<or> mime_type = ''application/json'' then JsonText
      else if file_ext \<in> {''.txt'', ''.md''} \<or> mime_type \<in> {''text/plain'', ''text/markdown''}
           then TextFile
      else TextFile)"

text \<open>
  What \<open>process_file\<close> finds outside the program: whether the path exists, and what the
  reader of each format returns for a path (\<open>Inl\<close> is the message of the exception it
  raises, a missing library included).
\<close>

record file_system =
  fs_exists :: "string \<Rightarrow> bool"
  fs_read :: "extractor \<Rightarrow> string \<Rightarrow> string + string"

definition process_file ::
  "config \<Rightarrow> file_system \<Rightarrow> string \<Rightarrow> string \<Rightarrow> string \<Rightarrow> (error + chunk list) option" where
  "process_file cfg fs file_path file_id mime_type =
     (if \<not> fs_exists fs file_path then Some (Inl (FileNotFoundError file_path))
      else
        let file_ext = py_lower (path_suffix file_path);
            md = \<lparr>md_file_id = file_id, md_file_path = file_path, md_mime_type = mime_type\<rparr>
        in case fs_read fs (select_extractor file_ext mime_type) file_path of
             Inl msg \<Rightarrow> Some (Inl (ExtractionException file_path msg))
           | Inr txt \<Rightarrow>
               if py_strip txt = [] then Some (Inl (NoTextValueError file_path))
               else map_option Inr (chunk_text cfg txt md))"

section \<open>TrainingService: embedding client\<close>

text \<open>
  What \<open>client.post\<close> delivers: an exception of the transport, or a response with its
  status code and its body (\<open>None\<close> when the body is not JSON, so that
  \<open>response.json()\<close> raises). \<open>raise_for_status\<close> raises unless the status is a
  success, 200 to 299.
\<close>

datatype http_result =
    TransportFailure string
  | HttpResponse nat "json option"

definition generate_embedding :: "http_result \<Rightarrow> error + json" where
  "generate_embedding res =
     (case res of
        TransportFailure msg \<Rightarrow> Inl (EmbeddingException msg)
      | HttpResponse status body \<Rightarrow>
          if \<not> (200 \<le> status \<and> status \<le> 299) then Inl (EmbeddingException ''HTTPStatusError'')
          else (case body of
                  None \<Rightarrow> Inl (EmbeddingException ''JSONDecodeError'')
                | Some (JObj kvs) \<Rightarrow>
                    Inr (case py_dict_get kvs ''embedding'' of None \<Rightarrow> JArr [] | Some v \<Rightarrow> v)
                | Some _ \<Rightarrow> Inl (EmbeddingException ''AttributeError'')))"

section \<open>TrainingService: vector store\<close>

text \<open>
  A row of \<open>knowledge_base_embeddings\<close>. The embedding column holds the items that
  \<open>embedding_str\<close> joins, the timestamps are readings of the database clock.
\<close>

record db_row =
  row_id :: int
  row_knowledge_base_id :: int
  row_version_id :: int
  row_file_id :: int
  row_chunk_index :: int
  row_chunk_text :: string
  row_embedding :: "json list"
  row_metadata :: chunk_metadata
  row_created_at :: nat
  row_updated_at :: nat

definition natural_key :: "db_row \<Rightarrow> int \<times> int \<times> int" where
  "natural_key r = (row_version_id r, row_file_id r, row_chunk_index r)"

text \<open>
  Modelled from the spec: the table declaration is not part of the sources. Section 6
  gives it a generated primary id and a unique constraint over (version id, file id,
  chunk index); the statement below is the \<open>INSERT ... ON CONFLICT ... DO UPDATE\<close> of
  \<open>store_embedding\<close> run against such a table. A conflict on the natural key updates the
  four columns of the \<open>SET\<close> list in the existing row; without one, a row with the same
  primary id makes the insert fail, and otherwise the row is appended.
\<close>

definition on_conflict_update :: "db_row \<Rightarrow> db_row \<Rightarrow> db_row" where
  "on_conflict_update excluded r =
     r\<lparr>row_chunk_text := row_chunk_text excluded,
       row_embedding := row_embedding excluded,
       row_metadata := row_metadata excluded,
       row_updated_at := row_updated_at excluded\<rparr>"

definition insert_on_conflict :: "db_row \<Rightarrow> db_row list \<Rightarrow> string + db_row list" where
  "insert_on_conflict new rows =
     (if \<exists>r \<in> set rows. natural_key r = natural_key new then
        Inr (map (\<lambda>r. if natural_key r = natural_key new then on_conflict_update new r else r)
               rows)
      else if \<exists>r \<in> set rows. row_id r = row_id new then Inl ''UniqueViolation''
      else Inr (rows @ [new]))"

text \<open>Iterating a JSON value as \<open>for f in embedding\<close> does; \<open>None\<close> is \<open>TypeError\<close>.\<close>

definition py_iter :: "json \<Rightarrow> json list option" where
  "py_iter v =
     (case v of
        JArr xs \<Rightarrow> Some xs
      | JStr s \<Rightarrow> Some (map (\<lambda>c. JStr [c]) s)
      | JObj kvs \<Rightarrow> Some (map JStr (remdups (map fst kvs)))
      | _ \<Rightarrow> None)"

text \<open>
  What one call of \<open>store_embedding\<close> finds outside the program: whether the driver
  can be imported, the failure, if any, of the connection, the generated identifier, the
  failure, if any, of the statement for a reason not modelled above (a cast, another
  constraint, a lost connection), and the reading of the database clock.
\<close>

record db_call =
  dc_has_driver :: bool
  dc_connect_failure :: "string option"
  dc_embedding_id :: int
  dc_execute_failure :: "string option"
  dc_now :: nat

definition store_embedding ::
  "db_call \<Rightarrow> string \<Rightarrow> string \<Rightarrow> string \<Rightarrow> int \<Rightarrow> string \<Rightarrow> json \<Rightarrow> chunk_metadata \<Rightarrow>
   (string \<rightharpoonup> string) \<Rightarrow> db_row list \<Rightarrow> error + db_row list" where
  "store_embedding call knowledge_base_id version_id file_id chunk_index chunk_txt embedding
     md db_config rows =
     (if \<not> dc_has_driver call then Inl (ImportError ''psycopg2'')
      else
       (case filter (\<lambda>k. db_config k = None)
               [''host'', ''port'', ''user'', ''password'', ''dbname''] of
          k # _ \<Rightarrow> Inl (KeyError k)
        | [] \<Rightarrow>
           (case dc_connect_failure call of
              Some msg \<Rightarrow> Inl (StorageException msg)
            | None \<Rightarrow>
               (case py_iter embedding of
                  None \<Rightarrow> Inl (StorageException ''TypeError'')
                | Some items \<Rightarrow>
                   (case (py_int knowledge_base_id, py_int version_id, py_int file_id) of
                      (Some kb, Some ver, Some fid) \<Rightarrow>
                        (case dc_execute_failure call of
                           Some msg \<Rightarrow> Inl (StorageException msg)
                         | None \<Rightarrow>
                            (case insert_on_conflict
                                    \<lparr>row_id = dc_embedding_id call, row_knowledge_base_id = kb,
                                     row_version_id = ver, row_file_id = fid,
                                     row_chunk_index = chunk_index, row_chunk_text = chunk_txt,
                                     row_embedding = items, row_metadata = md,
                                     row_created_at = dc_now call,
                                     row_updated_at = dc_now call\<rparr>
                                    rows of
                               Inl msg \<Rightarrow> Inl (StorageException msg)
                             | Inr rows' \<Rightarrow> Inr rows'))
                    | _ \<Rightarrow> Inl (StorageException ''ValueError''))))))"

section \<open>Floating-point arithmetic of the progress percentages\<close>

text \<open>
  The percentages are computed with Python floats, IEEE 754 binary64. A finite float is
  a rational; every operation returns the exact result rounded to 53 significant bits,
  ties to even. \<open>fl\<close> is that rounding. Its exponent is unbounded, so it is binary64
  wherever the exact result is zero or has a magnitude between \<open>2 powi (-1022)\<close> and
  \<open>2 powi 1023\<close>, which holds for every quotient, sum and product below as long as the
  numbers of files and chunks stay below \<open>2 ^ 500\<close>.
\<close>

definition float_exponent :: "rat \<Rightarrow> int" where
  "float_exponent x =
     (let (p, q) = quotient_of x; d = bitlen p - bitlen q
      in if 2 powi d \<le> x then d else d - 1)"

definition round_half_even :: "rat \<Rightarrow> int" where
  "round_half_even r =
     (let f = \<lfloor>r\<rfloor>; d = r - of_int f
      in if d < 1 / 2 then f else if 1 / 2 < d then f + 1 else if even f then f else f + 1)"

definition fl :: "rat \<Rightarrow> rat" where
  "fl x =
     (if x = 0 then 0
      else let u = 2 powi (float_exponent \<bar>x\<bar> - 52)
           in sgn x * of_int (round_half_even (\<bar>x\<bar> / u)) * u)"

text \<open>
  \<open>a / b\<close> on two integers is the correctly rounded quotient; an integer operand of a
  float operation is converted first; \<open>int(x)\<close> truncates towards zero. Every divisor
  below is the length of a list inside a loop over that list, hence not zero.
\<close>

definition int_truediv :: "int \<Rightarrow> int \<Rightarrow> rat" where
  "int_truediv a b = fl (of_int a / of_int b)"

definition float_of_int :: "int \<Rightarrow> rat" where
  "float_of_int n = fl (of_int n)"

definition float_div :: "rat \<Rightarrow> rat \<Rightarrow> rat" where
  "float_div x y = fl (x / y)"

definition float_add :: "rat \<Rightarrow> rat \<Rightarrow> rat" where
  "float_add x y = fl (x + y)"

definition float_mul :: "rat \<Rightarrow> rat \<Rightarrow> rat" where
  "float_mul x y = fl (x * y)"

definition int_of_float :: "rat \<Rightarrow> int" where
  "int_of_float x = (if 0 \<le> x then \<lfloor>x\<rfloor> else \<lceil>x\<rceil>)"

text \<open>The four percentage expressions of \<open>generate_progress\<close>.\<close>

definition pct_file_start :: "nat \<Rightarrow> nat \<Rightarrow> int" where
  "pct_file_start total_files file_idx =
     int_of_float (float_mul (int_truediv (int file_idx - 1) (int total_files))
                     (float_of_int 100))"

definition pct_chunk :: "nat \<Rightarrow> nat \<Rightarrow> nat \<Rightarrow> nat \<Rightarrow> int" where
  "pct_chunk total_files file_idx total_chunks chunk_idx =
     int_of_float
       (float_mul
          (float_add (int_truediv (int file_idx - 1) (int total_files))
             (float_div (int_truediv (int chunk_idx) (int total_chunks))
                (float_of_int (int total_files))))
          (float_of_int 100))"

definition pct_file_done :: "nat \<Rightarrow> nat \<Rightarrow> int" where
  "pct_file_done total_files file_idx =
     int_of_float (float_mul (int_truediv (int file_idx) (int total_files)) (float_of_int 100))"

definition pct_of_file :: "nat \<Rightarrow> nat \<Rightarrow> int" where
  "pct_of_file total_chunks chunk_idx =
     int_of_float (float_mul (int_truediv (int chunk_idx) (int total_chunks))
                     (float_of_int 100))"

section \<open>Training route: the progress stream\<close>

record file_info =
  fi_id :: string
  fi_name :: string
  fi_path :: string
  fi_size :: int
  fi_mime_type :: string

record request =
  knowledge_base_id :: string
  version_id :: string
  files :: "file_info list"
  db_config :: "string \<rightharpoonup> string"

datatype status = Processing | Embedding | Storing | Completed | Failed

record file_detail =
  fd_file_id :: string
  fd_file_name :: string
  fd_file_size :: int
  fd_file_type :: string
  fd_status :: status
  fd_chunks_total :: nat
  fd_chunks_done :: nat
  fd_percentage :: int
  fd_error :: "error option"

text \<open>
  The events of the stream, in the order of the fields that matter here:
  \<open>current_file\<close>, \<open>total_files\<close>, then for a progress event \<open>current_chunk\<close>,
  \<open>total_chunks\<close>, \<open>percentage\<close>, \<open>status\<close> and the \<open>file_details\<close> list as it is when
  the event is serialised; for an error event the list and the exception; for the
  completion its percentage. Names, sizes, job fields, timestamps and message texts are
  left out. The outer \<open>except\<close> of \<open>generate_progress\<close> has no event here: every
  statement outside the inner \<open>try\<close> is a dictionary lookup with a default, a list
  append or one of the divisions by \<open>total_files\<close>, which is positive inside the loop.
\<close>

datatype event =
    Progress nat nat nat nat int status "file_detail list"
  | ErrorEvent nat nat "file_detail list" error
  | Complete nat nat int

fun event_percentage :: "event \<Rightarrow> int option" where
  "event_percentage (Progress i F j C p st ds) = Some p"
| "event_percentage (ErrorEvent i F ds e) = None"
| "event_percentage (Complete i F p) = Some p"

fun event_file :: "event \<Rightarrow> nat" where
  "event_file (Progress i F j C p st ds) = i"
| "event_file (ErrorEvent i F ds e) = i"
| "event_file (Complete i F p) = i"

fun is_error :: "event \<Rightarrow> bool" where
  "is_error (ErrorEvent i F ds e) = True"
| "is_error _ = False"

fun is_complete :: "event \<Rightarrow> bool" where
  "is_complete (Complete i F p) = True"
| "is_complete _ = False"

fun progress_status :: "event \<Rightarrow> status option" where
  "progress_status (Progress i F j C p st ds) = Some st"
| "progress_status _ = None"

text \<open>
  What the job finds outside the program: the file system, the reply of the embedding
  backend to the request for chunk \<open>j\<close> of file \<open>i\<close>, and the circumstances of the
  database call for that chunk.
\<close>

record world =
  w_fs :: file_system
  w_embed :: "nat \<Rightarrow> nat \<Rightarrow> http_result"
  w_db :: "nat \<Rightarrow> nat \<Rightarrow> db_call"

text \<open>
  The loop over the chunks of one file, from chunk \<open>chunk_idx\<close> on. It returns the events
  it yields, the file's detail record, the table, and the exception that ended it, if
  one did. \<open>prev\<close> holds the detail records of the earlier files: the record of the
  current file is the last element of \<open>file_details\<close>.
\<close>

fun embed_chunks ::
  "world \<Rightarrow> request \<Rightarrow> file_info \<Rightarrow> nat \<Rightarrow> nat \<Rightarrow> nat \<Rightarrow> nat \<Rightarrow> chunk list \<Rightarrow>
   file_detail list \<Rightarrow> file_detail \<Rightarrow> db_row list \<Rightarrow>
   event list \<times> file_detail \<times> db_row list \<times> error option" where
  "embed_chunks w req fi total_files file_idx total_chunks chunk_idx [] prev fd rows =
     ([], fd, rows, None)"
| "embed_chunks w req fi total_files file_idx total_chunks chunk_idx (c # cs) prev fd rows =
     (let fd1 = fd\<lparr>fd_chunks_done := chunk_idx,
                    fd_percentage := pct_of_file total_chunks chunk_idx,
                    fd_status := Embedding\<rparr>;
          pct = pct_chunk total_files file_idx total_chunks chunk_idx;
          ev1 = Progress file_idx total_files chunk_idx total_chunks pct Embedding
                  (prev @ [fd1])
      in case generate_embedding (w_embed w file_idx chunk_idx) of
           Inl e \<Rightarrow> ([ev1], fd1, rows, Some e)
         | Inr embedding \<Rightarrow>
            (case store_embedding (w_db w file_idx chunk_idx) (knowledge_base_id req)
                    (version_id req) (fi_id fi) (int chunk_idx - 1) (c_text c) embedding
                    (c_metadata c) (db_config req) rows of
               Inl e \<Rightarrow> ([ev1], fd1, rows, Some e)
             | Inr rows1 \<Rightarrow>
                (let fd2 = fd1\<lparr>fd_status := Storing\<rparr>;
                     ev2 = Progress file_idx total_files chunk_idx total_chunks pct Storing
                             (prev @ [fd2])
                 in case embed_chunks w req fi total_files file_idx total_chunks
                           (Suc chunk_idx) cs prev fd2 rows1 of
                      (evs, fd3, rows2, err) \<Rightarrow> (ev1 # ev2 # evs, fd3, rows2, err))))"

text \<open>The \<open>except\<close> branch of the inner \<open>try\<close>.\<close>

definition mark_failed :: "file_detail \<Rightarrow> error \<Rightarrow> file_detail" where
  "mark_failed fd e = fd\<lparr>fd_status := Failed, fd_error := Some e\<rparr>"

text \<open>
  One iteration of the loop over the files. \<open>None\<close> is an iteration that never ends,
  which happens exactly when the chunker does not return.
\<close>

definition one_file ::
  "config \<Rightarrow> world \<Rightarrow> request \<Rightarrow> nat \<Rightarrow> nat \<Rightarrow> file_info \<Rightarrow> file_detail list \<Rightarrow>
   db_row list \<Rightarrow> (event list \<times> file_detail \<times> db_row list) option" where
  "one_file cfg w req total_files file_idx fi prev rows =
     (let fd0 = \<lparr>fd_file_id = fi_id fi, fd_file_name = fi_name fi, fd_file_size = fi_size fi,
                 fd_file_type = fi_mime_type fi, fd_status = Processing, fd_chunks_total = 0,
                 fd_chunks_done = 0, fd_percentage = 0, fd_error = None\<rparr>;
          ev0 = Progress file_idx total_files 0 0 (pct_file_start total_files file_idx)
                  Processing (prev @ [fd0])
      in case process_file cfg (w_fs w) (fi_path fi) (fi_id fi) (fi_mime_type fi) of
           None \<Rightarrow> None
         | Some (Inl e) \<Rightarrow>
             Some ([ev0, ErrorEvent file_idx total_files (prev @ [mark_failed fd0 e]) e],
                   mark_failed fd0 e, rows)
         | Some (Inr chunks) \<Rightarrow>
            (let total_chunks = length chunks;
                 fd1 = fd0\<lparr>fd_chunks_total := total_chunks\<rparr>
             in case embed_chunks w req fi total_files file_idx total_chunks 1 chunks prev
                       fd1 rows of
                  (evs, fd2, rows1, Some e) \<Rightarrow>
                    Some (ev0 # evs @
                            [ErrorEvent file_idx total_files (prev @ [mark_failed fd2 e]) e],
                          mark_failed fd2 e, rows1)
                | (evs, fd2, rows1, None) \<Rightarrow>
                    (let fd3 = fd2\<lparr>fd_status := Completed, fd_percentage := 100\<rparr>
                     in Some (ev0 # evs @
                                [Progress file_idx total_files total_chunks total_chunks
                                   (pct_file_done total_files file_idx) Completed
                                   (prev @ [fd3])],
                              fd3, rows1))))"

fun run_files ::
  "config \<Rightarrow> world \<Rightarrow> request \<Rightarrow> nat \<Rightarrow> nat \<Rightarrow> file_info list \<Rightarrow> file_detail list \<Rightarrow>
   db_row list \<Rightarrow> (event list \<times> file_detail list \<times> db_row list) option" where
  "run_files cfg w req total_files file_idx [] file_details rows =
     Some ([], file_details, rows)"
| "run_files cfg w req total_files file_idx (fi # rest) file_details rows =
     (case one_file cfg w req total_files file_idx fi file_details rows of
        None \<Rightarrow> None
      | Some (evs, fd, rows1) \<Rightarrow>
         (case run_files cfg w req total_files (Suc file_idx) rest (file_details @ [fd])
                 rows1 of
            None \<Rightarrow> None
          | Some (evs', file_details', rows2) \<Rightarrow> Some (evs @ evs', file_details', rows2)))"

definition generate_progress ::
  "config \<Rightarrow> world \<Rightarrow> request \<Rightarrow> db_row list \<Rightarrow>
   (event list \<times> file_detail list \<times> db_row list) option" where
  "generate_progress cfg w req rows =
     (let total_files = length (files req)
      in case run_files cfg w req total_files 1 (files req) [] rows of
           None \<Rightarrow> None
         | Some (evs, file_details, rows1) \<Rightarrow>
             Some (evs @ [Complete total_files total_files 100], file_details, rows1))"

section \<open>OllamaClient: the chat stream\<close>

text \<open>
  A reader of JSON texts for the lines of the stream, after the grammar \<open>json.loads\<close>
  accepts: the four whitespace characters, strings without raw control characters and
  with the escapes of the standard, numbers, the three literals and the three names
  \<open>NaN\<close>, \<open>Infinity\<close> and \<open>-Infinity\<close>, arrays and objects. A \<open>\\u\<close> escape
  is read when it names a code point below 256. \<open>None\<close> is \<open>JSONDecodeError\<close>.
\<close>

definition json_ws :: "char \<Rightarrow> bool" where
  "json_ws c = (of_char c \<in> {32, 9, 10, 13 :: nat})"

definition skip_ws :: "string \<Rightarrow> string" where
  "skip_ws s = dropWhile json_ws s"

definition hex_val :: "char \<Rightarrow> nat option" where
  "hex_val c =
     (let n = (of_char c :: nat)
      in if 48 \<le> n \<and> n \<le> 57 then Some (n - 48)
         else if 65 \<le> n \<and> n \<le> 70 then Some (n - 55)
         else if 97 \<le> n \<and> n \<le> 102 then Some (n - 87)
         else None)"

definition unescape :: "char \<Rightarrow> char option" where
  "unescape e =
     (if e = CHR 0x22 \<or> e = CHR 0x5C \<or> e = CHR ''/'' then Some e
      else if e = CHR ''b'' then Some (CHR 0x08)
      else if e = CHR ''f'' then Some (CHR 0x0C)
      else if e = CHR ''n'' then Some (CHR 0x0A)
      else if e = CHR ''r'' then Some (CHR 0x0D)
      else if e = CHR ''t'' then Some (CHR 0x09)
      else None)"

definition hex4 :: "char \<Rightarrow> char \<Rightarrow> char \<Rightarrow> char \<Rightarrow> nat option" where
  "hex4 a b c d =
     (case (hex_val a, hex_val b, hex_val c, hex_val d) of
        (Some w, Some x, Some y, Some z) \<Rightarrow> Some (((w * 16 + x) * 16 + y) * 16 + z)
      | _ \<Rightarrow> None)"

text \<open>The characters of a string after its opening quote, up to the closing one.\<close>

fun parse_string :: "string \<Rightarrow> string \<Rightarrow> (string \<times> string) option" where
  "parse_string [] acc = None"
| "parse_string (c # cs) acc =
     (if c = CHR 0x22 then Some (rev acc, cs)
      else if c = CHR 0x5C then
        (case cs of
           [] \<Rightarrow> None
         | e # cs1 \<Rightarrow>
            if e = CHR ''u'' then
              (case cs1 of
                 h1 # h2 # h3 # h4 # cs2 \<Rightarrow>
                   (case hex4 h1 h2 h3 h4 of
                      Some n \<Rightarrow> if n < 256 then parse_string cs2 (char_of n # acc) else None
                    | None \<Rightarrow> None)
               | _ \<Rightarrow> None)
            else (case unescape e of
                    Some ch \<Rightarrow> parse_string cs1 (ch # acc)
                  | None \<Rightarrow> None))
      else if (of_char c :: nat) < 32 then None
      else parse_string cs (c # acc))"

definition is_digit :: "char \<Rightarrow> bool" where
  "is_digit c = (48 \<le> (of_char c :: nat) \<and> (of_char c :: nat) \<le> 57)"

text \<open>
  A number: an optional minus sign, an integer part without a leading zero, and a
  fraction and an exponent that are taken only when they are complete.
\<close>

definition parse_number :: "string \<Rightarrow> (string \<times> string) option" where
  "parse_number s =
     (let (sign, s1) = (case s of c # cs \<Rightarrow> if c = CHR ''-'' then ([c], cs) else ([], s)
                                | [] \<Rightarrow> ([], s));
          (ip, s2) = (case s1 of
                        c # cs \<Rightarrow> if c = CHR ''0'' then ([c], cs)
                                  else (takeWhile is_digit s1, dropWhile is_digit s1)
                      | [] \<Rightarrow> ([], s1))
      in if ip = [] then None
         else
           let (frac, s3) =
                 (case s2 of
                    c # cs \<Rightarrow>
                      if c = CHR ''.'' \<and> takeWhile is_digit cs \<noteq> []
                      then (c # takeWhile is_digit cs, dropWhile is_digit cs) else ([], s2)
                  | [] \<Rightarrow> ([], s2));
               (ex, s4) =
                 (case s3 of
                    c # cs \<Rightarrow>
                      if c = CHR ''e'' \<or> c = CHR ''E'' then
                        (let (sg, cs1) =
                               (case cs of
                                  d # ds \<Rightarrow> if d = CHR ''+'' \<or> d = CHR ''-'' then ([d], ds)
                                            else ([], cs)
                                | [] \<Rightarrow> ([], cs))
                         in if takeWhile is_digit cs1 \<noteq> []
                            then (c # sg @ takeWhile is_digit cs1, dropWhile is_digit cs1)
                            else ([], s3))
                      else ([], s3)
                  | [] \<Rightarrow> ([], s3))
           in Some (sign @ ip @ frac @ ex, s4))"

definition parse_literal :: "string \<Rightarrow> (json \<times> string) option" where
  "parse_literal s =
     (case strip_prefix ''null'' s of Some r \<Rightarrow> Some (JNull, r) | None \<Rightarrow>
      case strip_prefix ''true'' s of Some r \<Rightarrow> Some (JBool True, r) | None \<Rightarrow>
      case strip_prefix ''false'' s of Some r \<Rightarrow> Some (JBool False, r) | None \<Rightarrow>
      case strip_prefix ''NaN'' s of Some r \<Rightarrow> Some (JNum ''NaN'', r) | None \<Rightarrow>
      case strip_prefix ''Infinity'' s of Some r \<Rightarrow> Some (JNum ''Infinity'', r) | None \<Rightarrow>
      case strip_prefix ''-Infinity'' s of Some r \<Rightarrow> Some (JNum ''-Infinity'', r) | None \<Rightarrow>
      case parse_number s of Some (lit, r) \<Rightarrow> Some (JNum lit, r) | None \<Rightarrow> None)"

text \<open>
  Values, the elements of an array after its bracket, and the members of an object after
  its brace. The first argument bounds the number of nested calls; \<open>json_loads\<close> starts
  with more than twice the length of the text, and every second call consumes a
  character.
\<close>

fun parse_value :: "nat \<Rightarrow> string \<Rightarrow> (json \<times> string) option"
  and parse_elements :: "nat \<Rightarrow> string \<Rightarrow> json list \<Rightarrow> (json \<times> string) option"
  and parse_members :: "nat \<Rightarrow> string \<Rightarrow> (string \<times> json) list \<Rightarrow> (json \<times> string) option"
  where
  "parse_value 0 s = None"
| "parse_value (Suc n) [] = None"
| "parse_value (Suc n) (c # cs) =
     (if c = CHR 0x22 then
        (case parse_string cs [] of Some (str, r) \<Rightarrow> Some (JStr str, r) | None \<Rightarrow> None)
      else if c = CHR ''{'' then
        (case skip_ws cs of
           [] \<Rightarrow> None
         | d # r \<Rightarrow> if d = CHR ''}'' then Some (JObj [], r) else parse_members n (d # r) [])
      else if c = CHR ''['' then
        (case skip_ws cs of
           [] \<Rightarrow> None
         | d # r \<Rightarrow> if d = CHR '']'' then Some (JArr [], r) else parse_elements n (d # r) [])
      else parse_literal (c # cs))"
| "parse_elements 0 s acc = None"
| "parse_elements (Suc n) s acc =
     (case parse_value n s of
        None \<Rightarrow> None
      | Some (v, r) \<Rightarrow>
         (case skip_ws r of
            [] \<Rightarrow> None
          | d # r1 \<Rightarrow>
             if d = CHR '','' then parse_elements n (skip_ws r1) (v # acc)
             else if d = CHR '']'' then Some (JArr (rev (v # acc)), r1)
             else None))"
| "parse_members 0 s acc = None"
| "parse_members (Suc n) s acc =
     (case s of
        [] \<Rightarrow> None
      | q # cs \<Rightarrow>
         if q \<noteq> CHR 0x22 then None
         else
          (case parse_string cs [] of
             None \<Rightarrow> None
           | Some (k, r) \<Rightarrow>
              (case skip_ws r of
                 [] \<Rightarrow> None
               | d # r1 \<Rightarrow>
                  if d \<noteq> CHR '':'' then None
                  else
                   (case parse_value n (skip_ws r1) of
                      None \<Rightarrow> None
                    | Some (v, r2) \<Rightarrow>
                       (case skip_ws r2 of
                          [] \<Rightarrow> None
                        | d1 # r3 \<Rightarrow>
                           if d1 = CHR '','' then parse_members n (skip_ws r3) ((k, v) # acc)
                           else if d1 = CHR ''}'' then Some (JObj (rev ((k, v) # acc)), r3)
                           else None)))))"

definition json_loads :: "string \<Rightarrow> json option" where
  "json_loads s =
     (case parse_value (2 * length s + 2) (skip_ws s) of
        None \<Rightarrow> None
      | Some (v, r) \<Rightarrow> if skip_ws r = [] then Some v else None)"

text \<open>
  \<open>key in v\<close> and \<open>v[key]\<close> for a string key on a parsed value: membership is a key
  test on an object, an element test on an array and a substring test on a string, and
  raises on the other values; subscription by a string works on objects only.
\<close>

definition py_in_json :: "string \<Rightarrow> json \<Rightarrow> error + bool" where
  "py_in_json k v =
     (case v of
        JObj kvs \<Rightarrow> Inr (k \<in> fst ` set kvs)
      | JArr xs \<Rightarrow> Inr (JStr k \<in> set xs)
      | JStr s \<Rightarrow> Inr (py_in_str k s)
      | _ \<Rightarrow> Inl (TypeError ''argument is not iterable''))"

definition py_getitem :: "json \<Rightarrow> string \<Rightarrow> error + json" where
  "py_getitem v k =
     (case v of
        JObj kvs \<Rightarrow> (case py_dict_get kvs k of Some x \<Rightarrow> Inr x | None \<Rightarrow> Inl (KeyError k))
      | _ \<Rightarrow> Inl (TypeError ''indices must be integers''))"

text \<open>
  \<open>"message" in data and "content" in data["message"]\<close>, then
  \<open>data["message"]["content"]\<close>: the value to yield, nothing to yield, or the exception.
\<close>

definition message_content :: "json \<Rightarrow> error + json option" where
  "message_content data =
     (case py_in_json ''message'' data of
        Inl e \<Rightarrow> Inl e
      | Inr False \<Rightarrow> Inr None
      | Inr True \<Rightarrow>
         (case py_getitem data ''message'' of
            Inl e \<Rightarrow> Inl e
          | Inr m \<Rightarrow>
             (case py_in_json ''content'' m of
                Inl e \<Rightarrow> Inl e
              | Inr False \<Rightarrow> Inr None
              | Inr True \<Rightarrow>
                 (case py_getitem m ''content'' of
                    Inl e \<Rightarrow> Inl e
                  | Inr v \<Rightarrow> Inr (Some v)))))"

text \<open>The clean-up of one non-blank line: \<open>strip\<close>, then the \<open>startswith\<close> test and \<open>replace\<close>.\<close>

definition clean_line :: "string \<Rightarrow> string" where
  "clean_line line =
     (let l = py_strip line
      in if py_startswith l ''data: '' then py_replace l ''data: '' [] else l)"

text \<open>
  The loop of \<open>stream_chat\<close> over the lines of the response, with the parser of the
  lines as a parameter. It returns the values it yields and the exception that ends the
  generator, if one does.
\<close>

fun stream_chat :: "(string \<Rightarrow> json option) \<Rightarrow> string list \<Rightarrow> json list \<times> error option" where
  "stream_chat loads [] = ([], None)"
| "stream_chat loads (line # rest) =
     (if line = [] \<or> py_strip line = [] then stream_chat loads rest
      else
        let l = clean_line line
        in if l \<in> {''[DONE]'', ''done'', ''DONE''} then ([], None)
           else (case loads l of
                   None \<Rightarrow> stream_chat loads rest
                 | Some data \<Rightarrow>
                    (case message_content data of
                       Inl e \<Rightarrow> ([], Some e)
                     | Inr None \<Rightarrow> stream_chat loads rest
                     | Inr (Some v) \<Rightarrow>
                        (case stream_chat loads rest of (vs, err) \<Rightarrow> (v # vs, err)))))"

section \<open>Vocabulary of the statements\<close>

text \<open>
  The format an extension names and the format a media type names, read off the tests of
  the dispatcher one format at a time, and the place of each format in the dispatcher's
  order.
\<close>

definition format_of_extension :: "string \<Rightarrow> extractor option" where
  "format_of_extension ext =
     (if ext = ''.pdf'' then Some PdfText
      else if ext = ''.docx'' \<or> ext = ''.doc'' then Some DocxText
      else if ext = ''.xlsx'' \<or> ext = ''.xls'' then Some ExcelText
      else if ext = ''.csv'' then Some CsvText
      else if ext = ''.json'' then Some JsonText
      else if ext = ''.txt'' \<or> ext = ''.md'' then Some TextFile
      else None)"

definition format_of_media_type :: "string \<Rightarrow> extractor option" where
  "format_of_media_type mime =
     (if mime = ''application/pdf'' then Some PdfText
      else if py_in_str ''wordprocessingml'' mime \<or> mime = ''application/msword''
           then Some DocxText
      else if py_in_str ''spreadsheetml'' mime \<or> mime = ''application/vnd.ms-excel''
           then Some ExcelText
      else if mime = ''text/csv'' then Some CsvText
      else if mime = ''application/json'' then Some JsonText
      else if mime = ''text/plain'' \<or> mime = ''text/markdown'' then Some TextFile
      else None)"

fun format_rank :: "extractor \<Rightarrow> nat" where
  "format_rank PdfText = 0"
| "format_rank DocxText = 1"
| "format_rank ExcelText = 2"
| "format_rank CsvText = 3"
| "format_rank JsonText = 4"
| "format_rank TextFile = 5"




text \<open>
  The number of windows the chunker visits and their start offsets, for a positive
  stride \<open>chunk_size - chunk_overlap\<close>.
\<close>

definition window_count :: "config \<Rightarrow> string \<Rightarrow> nat" where
  "window_count cfg txt =
     nat \<lceil>rat_of_int (int (length txt)) / rat_of_int (chunk_size cfg - chunk_overlap cfg)\<rceil>"

definition window_starts :: "config \<Rightarrow> string \<Rightarrow> int list" where
  "window_starts cfg txt =
     map (\<lambda>k. int k * (chunk_size cfg - chunk_overlap cfg)) [0..<window_count cfg txt]"

text \<open>
  The three stages of one file apart from the progress stream: extraction and chunking,
  then for each chunk in turn the embedding call and the storage call, up to the first
  exception. The result is that exception, if there is one, and the table the file
  leaves; \<open>None\<close> when the chunker does not return.
\<close>

fun chunks_outcome ::
  "world \<Rightarrow> request \<Rightarrow> file_info \<Rightarrow> nat \<Rightarrow> nat \<Rightarrow> chunk list \<Rightarrow> db_row list \<Rightarrow>
   error option \<times> db_row list" where
  "chunks_outcome w req fi file_idx chunk_idx [] rows = (None, rows)"
| "chunks_outcome w req fi file_idx chunk_idx (c # cs) rows =
     (case generate_embedding (w_embed w file_idx chunk_idx) of
        Inl e \<Rightarrow> (Some e, rows)
      | Inr embedding \<Rightarrow>
         (case store_embedding (w_db w file_idx chunk_idx) (knowledge_base_id req)
                 (version_id req) (fi_id fi) (int chunk_idx - 1) (c_text c) embedding
                 (c_metadata c) (db_config req) rows of
            Inl e \<Rightarrow> (Some e, rows)
          | Inr rows1 \<Rightarrow> chunks_outcome w req fi file_idx (Suc chunk_idx) cs rows1))"

definition file_outcome ::
  "config \<Rightarrow> world \<Rightarrow> request \<Rightarrow> nat \<Rightarrow> file_info \<Rightarrow> db_row list \<Rightarrow>
   (error option \<times> db_row list) option" where
  "file_outcome cfg w req file_idx fi rows =
     (case process_file cfg (w_fs w) (fi_path fi) (fi_id fi) (fi_mime_type fi) of
        None \<Rightarrow> None
      | Some (Inl e) \<Rightarrow> Some (Some e, rows)
      | Some (Inr chunks) \<Rightarrow> Some (chunks_outcome w req fi file_idx 1 chunks rows))"

text \<open>Selections from the events of a job.\<close>

definition error_events :: "nat \<Rightarrow> event list \<Rightarrow> event list" where
  "error_events file_idx evs = filter (\<lambda>e. is_error e \<and> event_file e = file_idx) evs"

definition status_events :: "status \<Rightarrow> nat \<Rightarrow> event list \<Rightarrow> event list" where
  "status_events st file_idx evs =
     filter (\<lambda>e. progress_status e = Some st \<and> event_file e = file_idx) evs"

definition in_chunk_loop :: "event \<Rightarrow> bool" where
  "in_chunk_loop e =
     (progress_status e = Some Processing \<or> progress_status e = Some Embedding
      \<or> progress_status e = Some Storing)"

definition chunk_loop_events :: "nat \<Rightarrow> event list \<Rightarrow> event list" where
  "chunk_loop_events file_idx evs =
     filter (\<lambda>e. in_chunk_loop e \<and> event_file e = file_idx) evs"

definition at_file_boundary :: "event \<Rightarrow> bool" where
  "at_file_boundary e =
     (progress_status e = Some Processing \<or> progress_status e = Some Completed
      \<or> is_complete e)"

fun percentages :: "event list \<Rightarrow> int list" where
  "percentages [] = []"
| "percentages (e # es) =
     (case event_percentage e of None \<Rightarrow> percentages es | Some p \<Rightarrow> p # percentages es)"

text \<open>
  The detail record a file starts with, and the events of the chunk loop of file
  \<open>file_idx\<close>: progress events of that file with status embedding or storing.
\<close>

definition initial_detail :: "file_info \<Rightarrow> file_detail" where
  "initial_detail fi =
     \<lparr>fd_file_id = fi_id fi, fd_file_name = fi_name fi, fd_file_size = fi_size fi,
      fd_file_type = fi_mime_type fi, fd_status = Processing, fd_chunks_total = 0,
      fd_chunks_done = 0, fd_percentage = 0, fd_error = None\<rparr>"

definition chunk_event :: "nat \<Rightarrow> event \<Rightarrow> bool" where
  "chunk_event file_idx e =
     (event_file e = file_idx \<and> \<not> is_error e \<and> \<not> is_complete e
      \<and> (progress_status e = Some Embedding \<or> progress_status e = Some Storing))"

text \<open>
  The table that the file \<open>n\<close> places after the head of a list of files finds, when
  the head is file \<open>file_idx\<close> of the job and finds the table \<open>rows\<close>: every file
  before it has passed the table through its stages and left what \<open>file_outcome\<close>
  says, whether it failed or not. Past the end of the list this is the table the last
  file leaves. \<open>None\<close> when the chunker does not return for one of the files before.
\<close>

fun table_before ::
  "config \<Rightarrow> world \<Rightarrow> request \<Rightarrow> nat \<Rightarrow> file_info list \<Rightarrow> db_row list \<Rightarrow> nat \<Rightarrow>
   db_row list option" where
  "table_before cfg w req file_idx fs rows 0 = Some rows"
| "table_before cfg w req file_idx [] rows (Suc n) = Some rows"
| "table_before cfg w req file_idx (fi # rest) rows (Suc n) =
     (case file_outcome cfg w req file_idx fi rows of
        None \<Rightarrow> None
      | Some (err, rows1) \<Rightarrow> table_before cfg w req (Suc file_idx) rest rows1 n)"

text \<open>
  What the job has done with the file at position \<open>file_idx\<close>, given the table
  \<open>rows_before\<close> the file finds, the final detail record \<open>fd\<close> of the file and the events
  \<open>evs\<close> of the job: the three stages of the file, run on that table, have the outcome
  \<open>err\<close>; the record belongs to the file, carries that outcome and is completed when
  there is no exception and failed when there is one; the job emitted one processing
  event for the file, one error event when it failed and none otherwise, one completed
  event when it did not fail and none otherwise.
\<close>

definition file_settled ::
  "config \<Rightarrow> world \<Rightarrow> request \<Rightarrow> nat \<Rightarrow> file_info \<Rightarrow> db_row list \<Rightarrow> file_detail \<Rightarrow>
   event list \<Rightarrow> bool"
  where
  "file_settled cfg w req file_idx fi rows_before fd evs =
     (\<exists>err rows_after.
        file_outcome cfg w req file_idx fi rows_before = Some (err, rows_after)
        \<and> fd_file_id fd = fi_id fi \<and> fd_error fd = err
        \<and> fd_status fd = (if err = None then Completed else Failed)
        \<and> length (status_events Processing file_idx evs) = 1
        \<and> length (error_events file_idx evs) = (if err = None then 0 else 1)
        \<and> length (status_events Completed file_idx evs) = (if err = None then 1 else 0))"

text \<open>Sample values for the examples.\<close>

definition sample_metadata :: metadata where
  "sample_metadata = \<lparr>md_file_id = ''7'', md_file_path = ''/data/a.txt'',
                       md_mime_type = ''text/plain''\<rparr>"

definition sample_config :: config where
  "sample_config = \<lparr>chunk_size = 4, chunk_overlap = 1\<rparr>"

definition sample_file :: "string \<Rightarrow> string \<Rightarrow> file_info" where
  "sample_file fid path =
     \<lparr>fi_id = fid, fi_name = path, fi_path = path, fi_size = 5, fi_mime_type = ''text/plain''\<rparr>"

text \<open>
  A world in which every path but \<open>/missing\<close> exists and reads as \<open>abcde\<close>, the
  embedding backend answers every request with a vector of two numbers, and every
  database call goes through.
\<close>

definition sample_world :: world where
  "sample_world =
     \<lparr>w_fs = \<lparr>fs_exists = (\<lambda>p. p \<noteq> ''/missing''), fs_read = (\<lambda>x p. Inr ''abcde'')\<rparr>,
      w_embed = (\<lambda>i j. HttpResponse 200
                          (Some (JObj [(''embedding'', JArr [JNum ''0.5'', JNum ''0.25''])]))),
      w_db = (\<lambda>i j. \<lparr>dc_has_driver = True, dc_connect_failure = None,
                       dc_embedding_id = int (100 * i + j), dc_execute_failure = None,
                       dc_now = 10 * i + j\<rparr>)\<rparr>"

definition sample_db_config :: "string \<rightharpoonup> string" where
  "sample_db_config =
     map_of [(''host'', ''db''), (''port'', ''5432''), (''user'', ''kb''),
             (''password'', ''secret''), (''dbname'', ''kb'')]"

definition sample_request :: "file_info list \<Rightarrow> request" where
  "sample_request fs =
     \<lparr>knowledge_base_id = ''1'', version_id = ''2'', files = fs, db_config = sample_db_config\<rparr>"


text \<open>Two files, the first of which is missing.\<close>

definition two_files :: "file_info list" where
  "two_files = [sample_file ''12'' ''/missing'', sample_file ''13'' ''/data/c.txt'']"

text \<open>Three files, the second of which is missing.\<close>

definition three_files :: "file_info list" where
  "three_files =
     [sample_file ''11'' ''/data/a.txt'', sample_file ''12'' ''/missing'',
      sample_file ''13'' ''/data/c.txt'']"

text \<open>Fifty files, all missing but the twenty-ninth.\<close>

definition fifty_files :: "file_info list" where
  "fifty_files =
     replicate 28 (sample_file ''0'' ''/missing'') @ [sample_file ''29'' ''/data/a.txt'']
     @ replicate 21 (sample_file ''0'' ''/missing'')"

section \<open>The chunker\<close>

lemma chunk_loop_stop:
  "\<not> start < int (length tx) \<Longrightarrow> chunk_loop W V tx md start cs = Some cs"
  by (subst chunk_loop.simps) simp

lemma chunk_loop_step:
  "start < int (length tx) \<Longrightarrow>
   chunk_loop W V tx md start cs =
   chunk_loop W V tx md (start + (W - V))
     (if window_kept W tx start then cs @ [window_at W tx md start] else cs)"
  by (subst chunk_loop.simps) (simp add: Let_def window_at_def window_kept_def algebra_simps)

lemma less_ceiling_div:
  assumes "0 < s"
  shows "(int k * s < L) = (int k < \<lceil>rat_of_int L / rat_of_int s\<rceil>)"
proof -
  have "(int k * s < L) = (rat_of_int (int k * s) < rat_of_int L)"
    by (simp only: of_int_less_iff)
  also have "\<dots> = (rat_of_int (int k) < rat_of_int L / rat_of_int s)"
    using assms by (simp add: pos_less_divide_eq)
  also have "\<dots> = (int k < \<lceil>rat_of_int L / rat_of_int s\<rceil>)"
    by (simp only: less_ceiling_iff)
  finally show ?thesis .
qed

text \<open>
  With a positive stride the loop, entered at the start of window \<open>k\<close>, returns: it adds
  the kept windows from \<open>k\<close> on to the chunks it already has.
\<close>

lemma chunk_loop_from:
  assumes s: "0 < W - V"
  shows "k \<le> n \<Longrightarrow> n = nat \<lceil>rat_of_int (int (length tx)) / rat_of_int (W - V)\<rceil> \<Longrightarrow>
     chunk_loop W V tx md (int k * (W - V)) cs =
       Some (cs @ map (window_at W tx md)
                    (filter (window_kept W tx) (map (\<lambda>k. int k * (W - V)) [k..<n])))"
proof (induction "n - k" arbitrary: k cs)
  case 0
  then have kn: "k = n" by simp
  have "\<not> int k < \<lceil>rat_of_int (int (length tx)) / rat_of_int (W - V)\<rceil>"
    using 0 kn by linarith
  then have "\<not> int k * (W - V) < int (length tx)"
    using less_ceiling_div[OF s, of k "int (length tx)"] by simp
  then show ?case using kn by (simp add: chunk_loop_stop)
next
  case (Suc d)
  then have kn: "k < n" by simp
  then have "int k < \<lceil>rat_of_int (int (length tx)) / rat_of_int (W - V)\<rceil>"
    using Suc.prems by linarith
  then have lt: "int k * (W - V) < int (length tx)"
    using less_ceiling_div[OF s, of k "int (length tx)"] by simp
  have nxt: "int k * (W - V) + (W - V) = int (Suc k) * (W - V)"
    by (simp add: algebra_simps)
  have d: "d = n - Suc k" using Suc.hyps(2) by simp
  have ks: "Suc k \<le> n" using kn by simp
  have up: "[k..<n] = k # [Suc k..<n]" using kn by (simp add: upt_conv_Cons)
  show ?case
    unfolding chunk_loop_step[OF lt] nxt Suc.hyps(1)[OF d ks Suc.prems(2)] up
    by simp
qed

lemma chunk_text_eq:
  assumes "0 < chunk_size cfg - chunk_overlap cfg"
  shows "chunk_text cfg tx md =
     Some (map (window_at (chunk_size cfg) tx md)
            (filter (window_kept (chunk_size cfg) tx) (window_starts cfg tx)))"
  using chunk_loop_from[OF assms, of 0 _ tx md "[]"]
  by (simp add: chunk_text_def window_starts_def window_count_def)

text \<open>
  Without a positive stride the loop never leaves a non-empty text: the start offset
  stays at or below zero. The proof is by induction over the runs that return.
\<close>

lemma chunk_loop_no_return:
  assumes "chunk_loop W V tx md start cs = Some r"
  shows "W - V \<le> 0 \<longrightarrow> start \<le> 0 \<longrightarrow> tx \<noteq> [] \<longrightarrow> False"
proof (rule chunk_loop.raw_induct
    [where P = "\<lambda>W V tx md start cs r. W - V \<le> 0 \<longrightarrow> start \<le> 0 \<longrightarrow> tx \<noteq> [] \<longrightarrow> False"])
  show "chunk_loop W V tx md start cs = Some r" by (rule assms)
next
  fix f :: "int \<Rightarrow> int \<Rightarrow> string \<Rightarrow> metadata \<Rightarrow> int \<Rightarrow> chunk list \<Rightarrow> chunk list option"
  fix W V :: int and tx :: string and md :: metadata and start :: int
  fix chunks r :: "chunk list"
  assume IH: "\<And>W V tx md start cs r. f W V tx md start cs = Some r \<Longrightarrow>
                W - V \<le> 0 \<longrightarrow> start \<le> 0 \<longrightarrow> tx \<noteq> [] \<longrightarrow> False"
  assume body: "(if start < int (length tx) then
        (let end = start + W;
             ct = py_slice tx start end;
             chunks' = (if py_strip ct \<noteq> [] then
                          chunks @ [\<lparr>c_text = ct, c_metadata = with_offsets md start end\<rparr>]
                        else chunks)
         in f W V tx md (end - V) chunks')
      else Some chunks) = Some r"
  show "W - V \<le> 0 \<longrightarrow> start \<le> 0 \<longrightarrow> tx \<noteq> [] \<longrightarrow> False"
  proof (intro impI)
    assume h: "W - V \<le> 0" "start \<le> 0" "tx \<noteq> []"
    then have lt: "start < int (length tx)" by (cases tx) auto
    from body lt obtain cs' where "f W V tx md (start + W - V) cs' = Some r"
      by (auto simp: Let_def split: if_splits)
    from IH[OF this] h show False by simp
  qed
qed

lemma chunk_text_diverges:
  assumes "chunk_size cfg - chunk_overlap cfg \<le> 0" "tx \<noteq> []"
  shows "chunk_text cfg tx md = None"
proof (cases "chunk_text cfg tx md")
  case None
  then show ?thesis .
next
  case (Some r)
  then have "chunk_loop (chunk_size cfg) (chunk_overlap cfg) tx md 0 [] = Some r"
    by (simp add: chunk_text_def)
  from chunk_loop_no_return[OF this] assms show ?thesis by simp
qed

lemma chunk_text_returns_iff:
  "(\<exists>cs. chunk_text cfg tx md = Some cs) = (0 < chunk_size cfg - chunk_overlap cfg \<or> tx = [])"
proof (cases "0 < chunk_size cfg - chunk_overlap cfg")
  case True
  then show ?thesis using chunk_text_eq[OF True] by simp
next
  case False
  show ?thesis
  proof (cases "tx = []")
    case True
    then show ?thesis by (simp add: chunk_text_def chunk_loop_stop)
  next
    case nonempty: False
    from False have "chunk_size cfg - chunk_overlap cfg \<le> 0" by simp
    from chunk_text_diverges[OF this nonempty] False nonempty show ?thesis by simp
  qed
qed

lemma chunk_text_Some_cases:
  assumes "chunk_text cfg tx md = Some cs"
  shows "cs = map (window_at (chunk_size cfg) tx md)
               (filter (window_kept (chunk_size cfg) tx) (window_starts cfg tx))
         \<or> cs = []"
proof (cases "0 < chunk_size cfg - chunk_overlap cfg")
  case True
  from chunk_text_eq[OF True] assms show ?thesis by simp
next
  case False
  with chunk_text_returns_iff[of cfg tx md] assms have "tx = []" by auto
  with assms show ?thesis by (simp add: chunk_text_def chunk_loop_stop)
qed

text \<open>
  Where claim C2 fails as stated: with window 2 and overlap 1 the text \<open>ab\<close> gives two
  chunks, none of them blank, and the formula of the claim gives one.
\<close>

theorem chunk_count_formula_counterexample:
  "chunk_text \<lparr>chunk_size = 2, chunk_overlap = 1\<rparr> ''ab'' sample_metadata
     = Some [\<lparr>c_text = ''ab'', c_metadata = with_offsets sample_metadata 0 2\<rparr>,
             \<lparr>c_text = ''b'', c_metadata = with_offsets sample_metadata 1 3\<rparr>]
   \<and> \<lceil>rat_of_int (max 0 (int (length ''ab'') - 1)) / rat_of_int (2 - 1)\<rceil> = 1"
  by code_simp

text \<open>
  Claim C2, amended. For a window \<open>W\<close> and an overlap \<open>V < W\<close> the chunker returns. It
  visits the windows that start at the multiples of \<open>W - V\<close> below the length \<open>L\<close> of the
  text, \<open>\<lceil>L / (W - V)\<rceil>\<close> of them, and emits, in order, those whose content is not blank:
  at most that many chunks, and exactly that many when no window is blank. Every emitted
  chunk, the final one included, records \<open>chunk_end - chunk_start = W\<close>.
\<close>

theorem chunk_text_windows:
  assumes "chunk_overlap cfg < chunk_size cfg"
  shows "\<exists>cs. chunk_text cfg tx md = Some cs
           \<and> cs = map (window_at (chunk_size cfg) tx md)
                    (filter (window_kept (chunk_size cfg) tx) (window_starts cfg tx))
           \<and> length (window_starts cfg tx)
               = nat \<lceil>rat_of_int (int (length tx)) / rat_of_int (chunk_size cfg - chunk_overlap cfg)\<rceil>
           \<and> length cs \<le> length (window_starts cfg tx)
           \<and> (list_all (window_kept (chunk_size cfg) tx) (window_starts cfg tx)
                \<longrightarrow> length cs = length (window_starts cfg tx))
           \<and> list_all (\<lambda>c. md_chunk_end (c_metadata c) - md_chunk_start (c_metadata c)
                             = chunk_size cfg) cs"
proof -
  from assms have s: "0 < chunk_size cfg - chunk_overlap cfg" by simp
  let ?cs = "map (window_at (chunk_size cfg) tx md)
               (filter (window_kept (chunk_size cfg) tx) (window_starts cfg tx))"
  have 1: "chunk_text cfg tx md = Some ?cs" by (rule chunk_text_eq[OF s])
  have 2: "length (window_starts cfg tx)
           = nat \<lceil>rat_of_int (int (length tx)) / rat_of_int (chunk_size cfg - chunk_overlap cfg)\<rceil>"
    by (simp add: window_starts_def window_count_def)
  have 3: "length ?cs \<le> length (window_starts cfg tx)" by simp
  have 4: "list_all (window_kept (chunk_size cfg) tx) (window_starts cfg tx)
             \<longrightarrow> length ?cs = length (window_starts cfg tx)"
    by (simp add: list_all_iff filter_id_conv)
  have 5: "list_all (\<lambda>c. md_chunk_end (c_metadata c) - md_chunk_start (c_metadata c)
                             = chunk_size cfg) ?cs"
    by (simp add: list_all_iff window_at_def with_offsets_def)
  from 1 2 3 4 5 show ?thesis by blast
qed

theorem chunk_text_windows_witness:
  "\<exists>cs. chunk_text \<lparr>chunk_size = 4, chunk_overlap = 1\<rparr> ''ab cdefg'' sample_metadata = Some cs
        \<and> map c_text cs = [''ab c'', ''cdef'', ''fg'']
        \<and> length (window_starts \<lparr>chunk_size = 4, chunk_overlap = 1\<rparr> ''ab cdefg'') = 3"
proof -
  have w: "window_starts \<lparr>chunk_size = 4, chunk_overlap = 1\<rparr> ''ab cdefg'' = [0, 3, 6]"
    by code_simp
  have k: "filter (window_kept 4 ''ab cdefg'') [0, 3, 6] = [0, 3, 6]"
    by code_simp
  have t: "map c_text (map (window_at 4 ''ab cdefg'' sample_metadata) [0, 3, 6]) = [''ab c'', ''cdef'', ''fg'']"
    by code_simp
  show ?thesis
    using chunk_text_windows [of "\<lparr>chunk_size = 4, chunk_overlap = 1\<rparr>" "''ab cdefg''" sample_metadata]
    unfolding w using k t by auto
qed

text \<open>
  Where claim C5 fails as stated: the constructor accepts window 5 with overlap 5, and
  the chunker then never returns on the text \<open>a\<close>.
\<close>

theorem zero_stride_accepted_counterexample:
  "TrainingService_init 5 5 = \<lparr>chunk_size = 5, chunk_overlap = 5\<rparr>
   \<and> chunk_text (TrainingService_init 5 5) ''a'' sample_metadata = None"
  by (simp add: TrainingService_init_def chunk_text_diverges)

text \<open>
  Claim C5, amended. The constructor accepts every window \<open>W\<close> and overlap \<open>V\<close>. The
  chunker returns on a text exactly when \<open>W - V\<close> is positive or the text is empty; so
  it returns on every text under every configuration with \<open>W - V > 0\<close>.
\<close>

theorem chunk_text_terminates_iff:
  "(\<exists>cs. chunk_text (TrainingService_init W V) tx md = Some cs) = (0 < W - V \<or> tx = [])"
  using chunk_text_returns_iff [of "TrainingService_init W V" tx md]
  by (simp add: TrainingService_init_def)

theorem chunk_text_terminates_iff_witness:
  "(\<exists>cs. chunk_text (TrainingService_init 1000 200) ''hello'' sample_metadata = Some cs)
   \<and> (\<exists>cs. chunk_text (TrainingService_init (-3) 7) [] sample_metadata = Some cs)"
  using chunk_text_terminates_iff [of 1000 200 "''hello''" sample_metadata]
    chunk_text_terminates_iff [of "-3" 7 "[]" sample_metadata]
  by simp

text \<open>
  Claim C10. Whenever the chunker returns, every chunk it emits records
  \<open>chunk_end = chunk_start + W\<close>, the final chunk included, while its text is the slice
  of the input between the two offsets, which is shorter when the window reaches beyond
  the end of the text. The example has a final chunk of two characters with
  \<open>chunk_end = 7\<close> in a text of five.
\<close>

theorem chunk_end_never_clamped:
  assumes "chunk_text cfg tx md = Some cs" and "c \<in> set cs"
  shows "md_chunk_end (c_metadata c) = md_chunk_start (c_metadata c) + chunk_size cfg
         \<and> c_text c = py_slice tx (md_chunk_start (c_metadata c)) (md_chunk_end (c_metadata c))
         \<and> c_text c \<noteq> []"
proof -
  from chunk_text_Some_cases[OF assms(1)] assms(2)
  obtain st where c: "c = window_at (chunk_size cfg) tx md st" and k: "window_kept (chunk_size cfg) tx st"
    by auto
  from k have "py_slice tx st (st + chunk_size cfg) \<noteq> []"
    by (auto simp: window_kept_def py_strip_def)
  with c show ?thesis by (simp add: window_at_def with_offsets_def)
qed

theorem chunk_end_never_clamped_witness:
  "chunk_text \<lparr>chunk_size = 4, chunk_overlap = 1\<rparr> ''abcde'' sample_metadata
     = Some [\<lparr>c_text = ''abcd'', c_metadata = with_offsets sample_metadata 0 4\<rparr>,
             \<lparr>c_text = ''de'', c_metadata = with_offsets sample_metadata 3 7\<rparr>]
   \<and> md_chunk_end (with_offsets sample_metadata 3 7) = 3 + 4
   \<and> int (length ''abcde'') < md_chunk_end (with_offsets sample_metadata 3 7)"
proof -
  have e: "chunk_text \<lparr>chunk_size = 4, chunk_overlap = 1\<rparr> ''abcde'' sample_metadata
     = Some [\<lparr>c_text = ''abcd'', c_metadata = with_offsets sample_metadata 0 4\<rparr>,
             \<lparr>c_text = ''de'', c_metadata = with_offsets sample_metadata 3 7\<rparr>]"
    by code_simp
  from chunk_end_never_clamped [OF e, of "\<lparr>c_text = ''de'', c_metadata = with_offsets sample_metadata 3 7\<rparr>"]
  have "md_chunk_end (with_offsets sample_metadata 3 7) = 3 + 4"
    by (simp add: with_offsets_def)
  with e show ?thesis by (simp add: with_offsets_def)
qed

section \<open>The embedding client\<close>

text \<open>
  Where claim C6 fails as stated: a success response whose object has no
  \<open>embedding\<close> member makes the client return the empty list.
\<close>

theorem generate_embedding_missing_field_counterexample:
  "generate_embedding (HttpResponse 200 (Some (JObj [(''model'', JStr ''nomic-embed-text'')])))
   = Inr (JArr [])"
  by code_simp

text \<open>
  Claim C6, amended. The client fails with the embedding error on a transport failure and
  on a response whose status is not a success. On a success response that carries an
  object it returns the \<open>embedding\<close> member when there is one, and the empty list when
  there is none.
\<close>

theorem generate_embedding_outcomes:
  "generate_embedding (TransportFailure msg) = Inl (EmbeddingException msg)
   \<and> (\<not> (200 \<le> st \<and> st \<le> 299) \<longrightarrow>
        generate_embedding (HttpResponse st body) = Inl (EmbeddingException ''HTTPStatusError''))
   \<and> (200 \<le> st \<and> st \<le> 299 \<and> py_dict_get kvs ''embedding'' = Some v \<longrightarrow>
        generate_embedding (HttpResponse st (Some (JObj kvs))) = Inr v)
   \<and> (200 \<le> st \<and> st \<le> 299 \<and> py_dict_get kvs ''embedding'' = None \<longrightarrow>
        generate_embedding (HttpResponse st (Some (JObj kvs))) = Inr (JArr []))"
  by (simp add: generate_embedding_def)

theorem generate_embedding_outcomes_witness:
  "generate_embedding (HttpResponse 503 None) = Inl (EmbeddingException ''HTTPStatusError'')
   \<and> generate_embedding (HttpResponse 200 (Some (JObj [(''embedding'', JArr [JNum ''0.5''])])))
       = Inr (JArr [JNum ''0.5''])
   \<and> generate_embedding (HttpResponse 200 (Some (JObj []))) = Inr (JArr [])"
  using generate_embedding_outcomes [of undefined 503 None "[]" undefined]
    generate_embedding_outcomes [of undefined 200 None "[(''embedding'', JArr [JNum ''0.5''])]" "JArr [JNum ''0.5'']"]
    generate_embedding_outcomes [of undefined 200 None "[]" undefined]
  by (simp add: py_dict_get_def)

section \<open>The vector store\<close>

lemma natural_key_on_conflict_update [simp]:
  "natural_key (on_conflict_update new r) = natural_key r"
  by (simp add: natural_key_def on_conflict_update_def)








section \<open>The extraction dispatcher\<close>

text \<open>
  Where claim C7 fails as stated: for the path \<open>/data/report.CSV\<close> declared as
  \<open>application/pdf\<close> the extension names the CSV reader and the media type the PDF
  reader, and the dispatcher selects the PDF reader.
\<close>

theorem select_extractor_media_type_wins_counterexample:
  "format_of_extension (py_lower (path_suffix ''/data/report.CSV'')) = Some CsvText
   \<and> format_of_media_type ''application/pdf'' = Some PdfText
   \<and> select_extractor (py_lower (path_suffix ''/data/report.CSV'')) ''application/pdf'' = PdfText"
  by code_simp

text \<open>
  Claim C7, amended. The dispatcher tries the formats in the order PDF, Word, Excel, CSV,
  JSON, text, and selects the first one that the extension or the declared media type
  names. When only one of the two names a format, that format is selected; when they
  name different formats, the one earlier in the order wins, whichever of the two named
  it; when neither names a format, the file is read as plain text.
\<close>

theorem select_extractor_by_rank:
  "select_extractor ext mime =
     (case (format_of_extension ext, format_of_media_type mime) of
        (None, None) \<Rightarrow> TextFile
      | (Some a, None) \<Rightarrow> a
      | (None, Some b) \<Rightarrow> b
      | (Some a, Some b) \<Rightarrow> if format_rank a \<le> format_rank b then a else b)"
  by (simp add: select_extractor_def format_of_extension_def format_of_media_type_def)

section \<open>The chat stream\<close>

text \<open>
  Claim C8. On the five lines of the claim the normalizer yields \<open>a\<close>, then \<open>b\<close>, and
  stops at the sentinel without an exception: the line after the sentinel is not read.
\<close>

theorem stream_chat_sentinel_example:
  \<open>stream_chat json_loads
     [''data: {"message":{"content":"a"}}'', ''garbage{{'',
      ''data: {"message":{"content":"b"}}'', ''[DONE]'',
      ''data: {"message":{"content":"c"}}'']
   = ([JStr ''a'', JStr ''b''], None)\<close>
  by code_simp

text \<open>
  Claim C9, at a line whose payload contains \<open>data: \<close>: the clean-up removes the
  occurrence inside the payload together with the prefix, and the normalizer yields
  \<open>my x\<close> where the upstream content is \<open>my data: x\<close>.
\<close>

theorem clean_line_removes_inner_occurrence:
  \<open>clean_line ''data: {"message":{"content":"my data: x"}}'' = ''{"message":{"content":"my x"}}''
   \<and> stream_chat json_loads [''data: {"message":{"content":"my data: x"}}'']
       = ([JStr ''my x''], None)\<close>
  by code_simp

section \<open>Rounding to binary64\<close>

lemma bitlen_powi_bounds:
  assumes "0 < p"
  shows "(2::rat) powi (bitlen p - 1) \<le> rat_of_int p" and "rat_of_int p < 2 powi bitlen p"
proof -
  from assms have b1: "1 \<le> bitlen p"
    using bitlen_eq_zero_iff[of p] bitlen_nonneg[of p] by linarith
  from bitlen_bounds[OF assms]
  have lo: "2 ^ nat (bitlen p - 1) \<le> p" and hi: "p < 2 ^ nat (bitlen p)" by auto
  have "(2::rat) powi (bitlen p - 1) = rat_of_int (2 ^ nat (bitlen p - 1))"
    using b1 by (simp add: power_int_nonneg_exp)
  also have "\<dots> \<le> rat_of_int p" using lo by (simp only: of_int_le_iff)
  finally show "(2::rat) powi (bitlen p - 1) \<le> rat_of_int p" .
  have "rat_of_int p < rat_of_int (2 ^ nat (bitlen p))" using hi by (simp only: of_int_less_iff)
  also have "\<dots> = (2::rat) powi bitlen p"
    using b1 by (simp add: power_int_nonneg_exp)
  finally show "rat_of_int p < 2 powi bitlen p" .
qed

lemma powi_52: "(2::rat) powi e = rat_of_int (2 ^ 52) * 2 powi (e - 52)"
proof -
  have "(2::rat) powi (52 + (e - 52)) = 2 powi 52 * 2 powi (e - 52)"
    by (rule power_int_add) simp
  then show ?thesis by simp
qed

lemma powi_53: "(2::rat) powi (e + 1) = rat_of_int (2 ^ 53) * 2 powi (e - 52)"
proof -
  have "(2::rat) powi (53 + (e - 52)) = 2 powi 53 * 2 powi (e - 52)"
    by (rule power_int_add) simp
  then show ?thesis by (simp add: add.commute)
qed

lemma scale_mono: "a \<le> b \<Longrightarrow> rat_of_int a * 2 powi k \<le> rat_of_int b * 2 powi k"
  by (intro mult_right_mono) simp_all

lemma float_exponent_bounds:
  assumes "0 < x"
  shows "2 powi float_exponent x \<le> x" and "x < 2 powi (float_exponent x + 1)"
proof -
  obtain p q where pq: "quotient_of x = (p, q)" by (cases "quotient_of x")
  have q: "0 < q" by (rule quotient_of_denom_pos[OF pq])
  have x: "x = rat_of_int p / rat_of_int q" by (rule quotient_of_div[OF pq])
  from assms x q have p: "0 < p" by (simp add: zero_less_divide_iff)
  let ?d = "bitlen p - bitlen q"
  note bp = bitlen_powi_bounds[OF p] and bq = bitlen_powi_bounds[OF q]
  have qpos: "0 < rat_of_int q" using q by simp
  have "x < 2 powi bitlen p / rat_of_int q"
    unfolding x using bp(2) qpos by (simp add: divide_strict_right_mono)
  also have "\<dots> \<le> 2 powi bitlen p / 2 powi (bitlen q - 1)"
    using bq(1) qpos by (intro divide_left_mono) (auto intro!: mult_pos_pos)
  also have "\<dots> = 2 powi (?d + 1)"
  proof -
    have eq: "bitlen p - (bitlen q - 1) = ?d + 1" by simp
    have "2 powi bitlen p / 2 powi (bitlen q - 1) = (2::rat) powi (bitlen p - (bitlen q - 1))"
      by (rule power_int_diff[symmetric]) simp
    then show ?thesis by (simp only: eq)
  qed
  finally have up: "x < 2 powi (?d + 1)" .
  have "(2::rat) powi (?d - 1) = 2 powi (bitlen p - 1) / 2 powi bitlen q"
  proof -
    have eq: "bitlen p - 1 - bitlen q = ?d - 1" by simp
    have "2 powi (bitlen p - 1) / 2 powi bitlen q = (2::rat) powi (bitlen p - 1 - bitlen q)"
      by (rule power_int_diff[symmetric]) simp
    then show ?thesis by (simp only: eq)
  qed
  also have "\<dots> \<le> rat_of_int p / 2 powi bitlen q"
    using bp(1) by (simp add: divide_right_mono)
  also have "\<dots> < rat_of_int p / rat_of_int q"
    using bq(2) p qpos by (intro divide_strict_left_mono) (auto intro: mult_pos_pos)
  finally have lo: "2 powi (?d - 1) < x" unfolding x .
  have e: "float_exponent x = (if 2 powi ?d \<le> x then ?d else ?d - 1)"
    by (simp add: float_exponent_def pq)
  show "2 powi float_exponent x \<le> x" using lo by (simp add: e)
  show "x < 2 powi (float_exponent x + 1)" using up by (auto simp: e not_le)
qed

lemma float_exponent_mono:
  assumes "0 < x" "x \<le> y"
  shows "float_exponent x \<le> float_exponent y"
proof (rule ccontr)
  assume "\<not> float_exponent x \<le> float_exponent y"
  then have "float_exponent y + 1 \<le> float_exponent x" by simp
  then have "(2::rat) powi (float_exponent y + 1) \<le> 2 powi float_exponent x"
    by (intro power_int_increasing) auto
  also have "\<dots> \<le> x" by (rule float_exponent_bounds(1)[OF assms(1)])
  also have "\<dots> \<le> y" by (rule assms(2))
  finally show False using float_exponent_bounds(2)[of y] assms by simp
qed

lemma round_half_even_cases:
  "round_half_even r = \<lfloor>r\<rfloor> \<or> round_half_even r = \<lfloor>r\<rfloor> + 1"
  by (simp add: round_half_even_def Let_def)

lemma round_half_even_of_int [simp]: "round_half_even (rat_of_int n) = n"
  by (simp add: round_half_even_def)

lemma round_half_even_mono:
  assumes "r \<le> s"
  shows "round_half_even r \<le> round_half_even s"
proof (cases "\<lfloor>r\<rfloor> = \<lfloor>s\<rfloor>")
  case True
  then show ?thesis using assms
    by (auto simp: round_half_even_def Let_def)
next
  case False
  with assms have "\<lfloor>r\<rfloor> + 1 \<le> \<lfloor>s\<rfloor>" using floor_mono[OF assms] by linarith
  moreover have "round_half_even r \<le> \<lfloor>r\<rfloor> + 1" using round_half_even_cases[of r] by auto
  moreover have "\<lfloor>s\<rfloor> \<le> round_half_even s" using round_half_even_cases[of s] by auto
  ultimately show ?thesis by linarith
qed

lemma round_half_even_ge: "rat_of_int n \<le> r \<Longrightarrow> n \<le> round_half_even r"
  using round_half_even_mono[of "rat_of_int n" r] by simp

lemma round_half_even_le: "r \<le> rat_of_int n \<Longrightarrow> round_half_even r \<le> n"
  using round_half_even_mono[of r "rat_of_int n"] by simp

lemma fl_pos_eq:
  "0 < x \<Longrightarrow> fl x = rat_of_int (round_half_even (x / 2 powi (float_exponent x - 52)))
                     * 2 powi (float_exponent x - 52)"
  by (simp add: fl_def Let_def)

lemma scaled_bounds:
  assumes "0 < x"
  shows "rat_of_int (2 ^ 52) \<le> x / 2 powi (float_exponent x - 52)"
    and "x / 2 powi (float_exponent x - 52) \<le> rat_of_int (2 ^ 53)"
proof -
  let ?e = "float_exponent x"
  have u: "(0::rat) < 2 powi (?e - 52)" by simp
  have "rat_of_int (2 ^ 52) * 2 powi (?e - 52) \<le> x"
    using float_exponent_bounds(1)[OF assms] by (simp only: powi_52[symmetric])
  then show "rat_of_int (2 ^ 52) \<le> x / 2 powi (?e - 52)"
    using u by (simp only: pos_le_divide_eq)
  have "x \<le> rat_of_int (2 ^ 53) * 2 powi (?e - 52)"
    using float_exponent_bounds(2)[OF assms] by (simp only: powi_53[symmetric])
  then show "x / 2 powi (?e - 52) \<le> rat_of_int (2 ^ 53)"
    using u by (simp only: pos_divide_le_eq)
qed

lemma fl_bounds:
  assumes "0 < x"
  shows "2 powi float_exponent x \<le> fl x" and "fl x \<le> 2 powi (float_exponent x + 1)"
proof -
  let ?e = "float_exponent x"
  let ?m = "round_half_even (x / 2 powi (?e - 52))"
  have lo: "2 ^ 52 \<le> ?m" by (rule round_half_even_ge[OF scaled_bounds(1)[OF assms]])
  have hi: "?m \<le> 2 ^ 53" by (rule round_half_even_le[OF scaled_bounds(2)[OF assms]])
  have "2 powi ?e = rat_of_int (2 ^ 52) * 2 powi (?e - 52)" by (rule powi_52)
  also have "\<dots> \<le> rat_of_int ?m * 2 powi (?e - 52)" by (rule scale_mono[OF lo])
  also have "\<dots> = fl x" by (simp only: fl_pos_eq[OF assms])
  finally show "2 powi ?e \<le> fl x" .
  have "fl x = rat_of_int ?m * 2 powi (?e - 52)" by (simp only: fl_pos_eq[OF assms])
  also have "\<dots> \<le> rat_of_int (2 ^ 53) * 2 powi (?e - 52)" by (rule scale_mono[OF hi])
  also have "\<dots> = 2 powi (?e + 1)" by (rule powi_53[symmetric])
  finally show "fl x \<le> 2 powi (?e + 1)" .
qed

lemma fl_zero [simp]: "fl 0 = 0"
  by (simp add: fl_def)

lemma fl_pos: "0 < x \<Longrightarrow> 0 < fl x"
  using fl_bounds(1)[of x] zero_less_power_int[of "2::rat" "float_exponent x"] by linarith

lemma fl_nonneg: "0 \<le> x \<Longrightarrow> 0 \<le> fl x"
  using fl_pos[of x] by (cases "x = 0") auto

text \<open>A value of the format that lies below y lies below the rounding of y.\<close>

lemma fl_above:
  assumes "0 < x" and m: "rat_of_int m * 2 powi (float_exponent x - 52) \<le> y"
    and mb: "m \<le> 2 ^ 53" "0 < m" and xy: "float_exponent x \<le> float_exponent y" and y: "0 < y"
  shows "rat_of_int m * 2 powi (float_exponent x - 52) \<le> fl y"
proof (cases "float_exponent x = float_exponent y")
  case True
  let ?u = "(2::rat) powi (float_exponent y - 52)"
  have u: "0 < ?u" by simp
  from m True have "rat_of_int m \<le> y / ?u" using u by (simp add: pos_le_divide_eq)
  then have "m \<le> round_half_even (y / ?u)" by (rule round_half_even_ge)
  then have "rat_of_int m * ?u \<le> rat_of_int (round_half_even (y / ?u)) * ?u"
    by (rule scale_mono)
  then show ?thesis by (simp add: fl_pos_eq[OF y] True)
next
  case False
  with xy have lt: "float_exponent x + 1 \<le> float_exponent y" by simp
  let ?u = "(2::rat) powi (float_exponent x - 52)"
  have u: "0 < ?u" by simp
  have "rat_of_int m * ?u \<le> rat_of_int (2 ^ 53) * ?u"
    by (rule scale_mono[OF mb(1)])
  also have "\<dots> = 2 powi (float_exponent x + 1)" by (rule powi_53[symmetric])
  also have "\<dots> \<le> 2 powi float_exponent y" using lt by (intro power_int_increasing) auto
  also have "\<dots> \<le> fl y" by (rule fl_bounds(1)[OF y])
  finally show ?thesis .
qed

lemma fl_mono:
  assumes "0 \<le> x" "x \<le> y"
  shows "fl x \<le> fl y"
proof (cases "x = 0")
  case True
  then show ?thesis using fl_nonneg[of y] assms by simp
next
  case False
  with assms have x: "0 < x" and y: "0 < y" by auto
  let ?u = "(2::rat) powi (float_exponent x - 52)"
  let ?m = "round_half_even (x / ?u)"
  have e: "float_exponent x \<le> float_exponent y" by (rule float_exponent_mono[OF x assms(2)])
  show ?thesis
  proof (cases "float_exponent x = float_exponent y")
    case True
    have u: "0 < ?u" by simp
    have "x / ?u \<le> y / ?u" using assms(2) u by (simp add: divide_right_mono)
    then have "?m \<le> round_half_even (y / ?u)" by (rule round_half_even_mono)
    then have "rat_of_int ?m * ?u \<le> rat_of_int (round_half_even (y / ?u)) * ?u"
      by (rule scale_mono)
    then show ?thesis by (simp add: fl_pos_eq[OF x] fl_pos_eq[OF y] True)
  next
    case False
    with e have lt: "float_exponent x + 1 \<le> float_exponent y" by simp
    have "fl x \<le> 2 powi (float_exponent x + 1)" by (rule fl_bounds(2)[OF x])
    also have "\<dots> \<le> 2 powi float_exponent y" using lt by (intro power_int_increasing) auto
    also have "\<dots> \<le> fl y" by (rule fl_bounds(1)[OF y])
    finally show ?thesis .
  qed
qed

lemma fl_keeps_float:
  assumes "0 \<le> z" "fl z \<le> y"
  shows "fl z \<le> fl y"
proof (cases "z = 0")
  case True
  with assms show ?thesis using fl_nonneg[of y] by simp
next
  case False
  with assms have z: "0 < z" by simp
  let ?u = "(2::rat) powi (float_exponent z - 52)"
  let ?m = "round_half_even (z / ?u)"
  have fz: "fl z = rat_of_int ?m * ?u" by (rule fl_pos_eq[OF z])
  have y: "0 < y" using fl_pos[OF z] assms(2) by linarith
  have lo: "2 ^ 52 \<le> ?m" by (rule round_half_even_ge[OF scaled_bounds(1)[OF z]])
  have hi: "?m \<le> 2 ^ 53" by (rule round_half_even_le[OF scaled_bounds(2)[OF z]])
  have e: "float_exponent z \<le> float_exponent y"
  proof (rule ccontr)
    assume "\<not> float_exponent z \<le> float_exponent y"
    then have "float_exponent y + 1 \<le> float_exponent z" by simp
    then have "(2::rat) powi (float_exponent y + 1) \<le> 2 powi float_exponent z"
      by (intro power_int_increasing) auto
    also have "\<dots> \<le> fl z" by (rule fl_bounds(1)[OF z])
    also have "\<dots> \<le> y" by (rule assms(2))
    finally show False using float_exponent_bounds(2)[OF y] by simp
  qed
  have "(0::int) < 2 ^ 52" by simp
  with lo have mpos: "0 < ?m" by linarith
  from fl_above[OF z _ hi mpos e y] assms(2) show ?thesis unfolding fz by simp
qed

section \<open>The percentage expressions\<close>

lemma float_of_int_100 [simp]: "float_of_int 100 = 100"
  unfolding float_of_int_def by code_simp

lemma fl_one [simp]: "fl 1 = 1"
  by code_simp

lemma int_of_float_mono: "x \<le> y \<Longrightarrow> int_of_float x \<le> int_of_float y"
proof -
  have "\<lceil>x\<rceil> \<le> \<lfloor>y\<rfloor>" if "x < 0" "0 \<le> y"
  proof -
    have "\<lceil>x\<rceil> \<le> 0" using that by (simp add: ceiling_le_iff)
    moreover have "0 \<le> \<lfloor>y\<rfloor>" using that by simp
    ultimately show ?thesis by linarith
  qed
  then show "x \<le> y \<Longrightarrow> int_of_float x \<le> int_of_float y"
    unfolding int_of_float_def by (auto intro: floor_mono ceiling_mono)
qed

lemma fl_add_ge: "0 \<le> z \<Longrightarrow> 0 \<le> x \<Longrightarrow> fl z \<le> fl (fl z + x)"
  by (rule fl_keeps_float) simp_all

lemma int_truediv_nonneg: "0 \<le> a \<Longrightarrow> 0 < b \<Longrightarrow> 0 \<le> int_truediv a b"
  unfolding int_truediv_def by (intro fl_nonneg) simp

lemma int_truediv_mono: "0 \<le> a \<Longrightarrow> a \<le> a' \<Longrightarrow> 0 < b \<Longrightarrow> int_truediv a b \<le> int_truediv a' b"
  unfolding int_truediv_def by (intro fl_mono) (simp_all add: divide_right_mono)

lemma float_of_int_pos: "0 < n \<Longrightarrow> 0 < float_of_int n"
  unfolding float_of_int_def by (intro fl_pos) simp

lemma float_mul_100_mono: "0 \<le> x \<Longrightarrow> x \<le> y \<Longrightarrow> float_mul x (float_of_int 100) \<le> float_mul y (float_of_int 100)"
  unfolding float_mul_def by (intro fl_mono) simp_all

lemma pct_start_le_chunk:
  assumes "1 \<le> i" "0 < F" "0 < C"
  shows "pct_file_start F i \<le> pct_chunk F i C j"
proof -
  let ?a = "int_truediv (int i - 1) (int F)"
  let ?x = "float_div (int_truediv (int j) (int C)) (float_of_int (int F))"
  have a: "0 \<le> ?a" using assms by (intro int_truediv_nonneg) simp_all
  have "0 \<le> int_truediv (int j) (int C)" using assms by (intro int_truediv_nonneg) simp_all
  moreover have "0 < float_of_int (int F)" using assms by (intro float_of_int_pos) simp
  ultimately have x: "0 \<le> ?x" unfolding float_div_def by (intro fl_nonneg) simp
  have "0 \<le> rat_of_int (int i - 1) / rat_of_int (int F)" using assms by simp
  from fl_add_ge[OF this x] have "?a \<le> float_add ?a ?x"
    by (simp add: float_add_def int_truediv_def)
  then have "float_mul ?a (float_of_int 100) \<le> float_mul (float_add ?a ?x) (float_of_int 100)"
    using a by (intro float_mul_100_mono)
  then show ?thesis unfolding pct_file_start_def pct_chunk_def by (rule int_of_float_mono)
qed

lemma pct_chunk_mono:
  assumes "j \<le> j'" "1 \<le> i" "0 < F" "0 < C"
  shows "pct_chunk F i C j \<le> pct_chunk F i C j'"
proof -
  let ?a = "int_truediv (int i - 1) (int F)"
  let ?x = "\<lambda>j. float_div (int_truediv (int j) (int C)) (float_of_int (int F))"
  have a: "0 \<le> ?a" using assms by (intro int_truediv_nonneg) simp_all
  have f: "0 < float_of_int (int F)" using assms by (intro float_of_int_pos) simp
  have t0: "0 \<le> int_truediv (int j) (int C)" using assms by (intro int_truediv_nonneg) simp_all
  have t: "int_truediv (int j) (int C) \<le> int_truediv (int j') (int C)"
    using assms by (intro int_truediv_mono) simp_all
  have x0: "0 \<le> ?x j" using t0 f unfolding float_div_def by (intro fl_nonneg) simp
  have x: "?x j \<le> ?x j'"
    unfolding float_div_def using t t0 f by (intro fl_mono) (simp_all add: divide_right_mono)
  have "float_add ?a (?x j) \<le> float_add ?a (?x j')"
    unfolding float_add_def using a x0 x by (intro fl_mono) simp_all
  moreover have "0 \<le> float_add ?a (?x j)"
    unfolding float_add_def using a x0 by (intro fl_nonneg) simp
  ultimately have "float_mul (float_add ?a (?x j)) (float_of_int 100)
                   \<le> float_mul (float_add ?a (?x j')) (float_of_int 100)"
    by (intro float_mul_100_mono)
  then show ?thesis unfolding pct_chunk_def by (rule int_of_float_mono)
qed

lemma pct_done_eq_next_start: "pct_file_done F i = pct_file_start F (Suc i)"
  by (simp add: pct_file_done_def pct_file_start_def)

lemma pct_file_start_mono:
  assumes "i \<le> i'" "1 \<le> i" "0 < F"
  shows "pct_file_start F i \<le> pct_file_start F i'"
proof -
  have "int_truediv (int i - 1) (int F) \<le> int_truediv (int i' - 1) (int F)"
    using assms by (intro int_truediv_mono) simp_all
  moreover have "0 \<le> int_truediv (int i - 1) (int F)"
    using assms by (intro int_truediv_nonneg) simp_all
  ultimately have "float_mul (int_truediv (int i - 1) (int F)) (float_of_int 100)
                   \<le> float_mul (int_truediv (int i' - 1) (int F)) (float_of_int 100)"
    by (intro float_mul_100_mono)
  then show ?thesis unfolding pct_file_start_def by (rule int_of_float_mono)
qed

lemma pct_file_done_le_100:
  assumes "i \<le> F" "0 < F"
  shows "pct_file_done F i \<le> 100"
proof -
  have "rat_of_int (int i) / rat_of_int (int F) \<le> 1" using assms by simp
  then have "int_truediv (int i) (int F) \<le> fl 1"
    unfolding int_truediv_def using assms by (intro fl_mono) simp_all
  then have le1: "int_truediv (int i) (int F) \<le> 1" by simp
  have nn: "0 \<le> int_truediv (int i) (int F)" using assms by (intro int_truediv_nonneg) simp_all
  have "float_mul (int_truediv (int i) (int F)) (float_of_int 100) \<le> float_mul 1 (float_of_int 100)"
    using nn le1 by (intro float_mul_100_mono)
  also have "\<dots> = 100" unfolding float_mul_def float_of_int_100 by code_simp
  finally have "int_of_float (float_mul (int_truediv (int i) (int F)) (float_of_int 100)) \<le> int_of_float 100"
    by (rule int_of_float_mono)
  then show ?thesis by (simp add: pct_file_done_def int_of_float_def)
qed

section \<open>The events of a job\<close>

lemma percentages_append [simp]: "percentages (xs @ ys) = percentages xs @ percentages ys"
  by (induction xs) (auto split: option.splits)

lemma filter_none: "list_all (\<lambda>e. \<not> P e) xs \<Longrightarrow> filter P xs = []"
  by (induction xs) auto

lemma process_file_returns:
  assumes "chunk_overlap cfg < chunk_size cfg"
  shows "\<exists>r. process_file cfg fs p fid mime = Some r"
proof -
  from assms have s: "0 < chunk_size cfg - chunk_overlap cfg" by simp
  show ?thesis
    by (simp add: process_file_def Let_def chunk_text_eq[OF s] split: sum.splits)
qed

text \<open>The chunk loop of a file: its outcome, its events, its detail record.\<close>

lemma embed_chunks_outcome:
  "embed_chunks w req fi F i C j cs prev fd rows = (evs, fd', rows', err) \<Longrightarrow>
   chunks_outcome w req fi i j cs rows = (err, rows')
   \<and> list_all (chunk_event i) evs
   \<and> fd_file_id fd' = fd_file_id fd \<and> fd_error fd' = fd_error fd"
proof (induction cs arbitrary: j fd rows evs fd' rows' err)
  case Nil
  then show ?case by simp
next
  case (Cons c cs)
  show ?case
  proof (cases "generate_embedding (w_embed w i j)")
    case (Inl e)
    with Cons.prems show ?thesis by (auto simp: Let_def chunk_event_def)
  next
    case (Inr emb)
    show ?thesis
    proof (cases "store_embedding (w_db w i j) (knowledge_base_id req) (version_id req)
                    (fi_id fi) (int j - 1) (c_text c) emb (c_metadata c) (db_config req) rows")
      case (Inl e)
      with Inr Cons.prems show ?thesis by (auto simp: Let_def chunk_event_def)
    next
      case st: (Inr rows1)
      let ?fd2 = "fd\<lparr>fd_chunks_done := j, fd_percentage := pct_of_file C j,
                    fd_status := Embedding, fd_status := Storing\<rparr>"
      obtain evs2 fd3 rows2 err2 where
        r: "embed_chunks w req fi F i C (Suc j) cs prev ?fd2 rows1 = (evs2, fd3, rows2, err2)"
        by (metis prod_cases4)
      from Cons.IH[OF r] Cons.prems Inr st r show ?thesis
        by (auto simp: Let_def chunk_event_def)
    qed
  qed
qed

lemma one_file_shape:
  assumes "chunk_overlap cfg < chunk_size cfg"
  shows "(\<exists>e. process_file cfg (w_fs w) (fi_path fi) (fi_id fi) (fi_mime_type fi) = Some (Inl e)
            \<and> one_file cfg w req F i fi prev rows =
                Some ([Progress i F 0 0 (pct_file_start F i) Processing (prev @ [initial_detail fi]),
                       ErrorEvent i F (prev @ [mark_failed (initial_detail fi) e]) e],
                      mark_failed (initial_detail fi) e, rows))
       \<or> (\<exists>chunks evs fd2 rows1 err.
            process_file cfg (w_fs w) (fi_path fi) (fi_id fi) (fi_mime_type fi) = Some (Inr chunks)
            \<and> embed_chunks w req fi F i (length chunks) 1 chunks prev
                 ((initial_detail fi)\<lparr>fd_chunks_total := length chunks\<rparr>) rows
                = (evs, fd2, rows1, err)
            \<and> one_file cfg w req F i fi prev rows =
                (case err of
                   Some e \<Rightarrow>
                     Some (Progress i F 0 0 (pct_file_start F i) Processing (prev @ [initial_detail fi])
                             # evs @ [ErrorEvent i F (prev @ [mark_failed fd2 e]) e],
                           mark_failed fd2 e, rows1)
                 | None \<Rightarrow>
                     Some (Progress i F 0 0 (pct_file_start F i) Processing (prev @ [initial_detail fi])
                             # evs @ [Progress i F (length chunks) (length chunks)
                                        (pct_file_done F i) Completed
                                        (prev @ [fd2\<lparr>fd_status := Completed, fd_percentage := 100\<rparr>])],
                           fd2\<lparr>fd_status := Completed, fd_percentage := 100\<rparr>, rows1)))"
proof -
  from process_file_returns[OF assms] obtain r where
    r: "process_file cfg (w_fs w) (fi_path fi) (fi_id fi) (fi_mime_type fi) = Some r" by blast
  show ?thesis
  proof (cases r)
    case (Inl e)
    with r show ?thesis by (simp add: one_file_def initial_detail_def Let_def)
  next
    case (Inr chunks)
    obtain evs fd2 rows1 err where
      e: "embed_chunks w req fi F i (length chunks) 1 chunks prev
            ((initial_detail fi)\<lparr>fd_chunks_total := length chunks\<rparr>) rows = (evs, fd2, rows1, err)"
      by (metis prod_cases4)
    then have e': "embed_chunks w req fi F i (length chunks) (Suc 0) chunks prev
            ((initial_detail fi)\<lparr>fd_chunks_total := length chunks\<rparr>) rows = (evs, fd2, rows1, err)"
      by simp
    have "one_file cfg w req F i fi prev rows =
                (case err of
                   Some e \<Rightarrow>
                     Some (Progress i F 0 0 (pct_file_start F i) Processing (prev @ [initial_detail fi])
                             # evs @ [ErrorEvent i F (prev @ [mark_failed fd2 e]) e],
                           mark_failed fd2 e, rows1)
                 | None \<Rightarrow>
                     Some (Progress i F 0 0 (pct_file_start F i) Processing (prev @ [initial_detail fi])
                             # evs @ [Progress i F (length chunks) (length chunks)
                                        (pct_file_done F i) Completed
                                        (prev @ [fd2\<lparr>fd_status := Completed, fd_percentage := 100\<rparr>])],
                           fd2\<lparr>fd_status := Completed, fd_percentage := 100\<rparr>, rows1))"
      using r Inr e' unfolding one_file_def Let_def initial_detail_def[symmetric]
      by (simp split: option.splits)
    with r Inr e show ?thesis by blast
  qed
qed

lemma chunk_events_filters:
  assumes "list_all (chunk_event i) evs"
  shows "status_events Processing k evs = []" "status_events Completed k evs = []"
    "error_events k evs = []" "list_all (\<lambda>e. event_file e = i \<and> \<not> is_complete e) evs"
    "filter at_file_boundary evs = []"
    "chunk_loop_events i evs = evs"
  using assms
  by (induction evs)
     (auto simp: status_events_def error_events_def chunk_event_def at_file_boundary_def
        chunk_loop_events_def in_chunk_loop_def)

lemma one_file_outcome:
  assumes "chunk_overlap cfg < chunk_size cfg"
  shows "\<exists>evs fd rows1 err. one_file cfg w req F i fi prev rows = Some (evs, fd, rows1)
     \<and> file_outcome cfg w req i fi rows = Some (err, rows1)
     \<and> fd_file_id fd = fi_id fi \<and> fd_error fd = err
     \<and> fd_status fd = (if err = None then Completed else Failed)
     \<and> list_all (\<lambda>e. event_file e = i \<and> \<not> is_complete e) evs
     \<and> length (status_events Processing i evs) = 1
     \<and> length (error_events i evs) = (if err = None then 0 else 1)
     \<and> length (status_events Completed i evs) = (if err = None then 1 else 0)"
proof -
  from one_file_shape[OF assms, of w fi req F i prev rows]
  show ?thesis
  proof (elim disjE exE conjE)
    fix e
    assume "process_file cfg (w_fs w) (fi_path fi) (fi_id fi) (fi_mime_type fi) = Some (Inl e)"
      and "one_file cfg w req F i fi prev rows =
                Some ([Progress i F 0 0 (pct_file_start F i) Processing (prev @ [initial_detail fi]),
                       ErrorEvent i F (prev @ [mark_failed (initial_detail fi) e]) e],
                      mark_failed (initial_detail fi) e, rows)"
    then show ?thesis
      by (simp add: file_outcome_def mark_failed_def initial_detail_def status_events_def
          error_events_def)
  next
    fix chunks evs fd2 rows1 err
    assume p: "process_file cfg (w_fs w) (fi_path fi) (fi_id fi) (fi_mime_type fi) = Some (Inr chunks)"
      and e: "embed_chunks w req fi F i (length chunks) 1 chunks prev
                 ((initial_detail fi)\<lparr>fd_chunks_total := length chunks\<rparr>) rows
                = (evs, fd2, rows1, err)"
      and o: "one_file cfg w req F i fi prev rows =
                (case err of
                   Some e \<Rightarrow>
                     Some (Progress i F 0 0 (pct_file_start F i) Processing (prev @ [initial_detail fi])
                             # evs @ [ErrorEvent i F (prev @ [mark_failed fd2 e]) e],
                           mark_failed fd2 e, rows1)
                 | None \<Rightarrow>
                     Some (Progress i F 0 0 (pct_file_start F i) Processing (prev @ [initial_detail fi])
                             # evs @ [Progress i F (length chunks) (length chunks)
                                        (pct_file_done F i) Completed
                                        (prev @ [fd2\<lparr>fd_status := Completed, fd_percentage := 100\<rparr>])],
                           fd2\<lparr>fd_status := Completed, fd_percentage := 100\<rparr>, rows1))"
    from embed_chunks_outcome[OF e]
    have c: "chunks_outcome w req fi i 1 chunks rows = (err, rows1)"
      and l: "list_all (chunk_event i) evs"
      and f: "fd_file_id fd2 = fi_id fi" "fd_error fd2 = None"
      by (simp_all add: initial_detail_def)
    note fl = chunk_events_filters[OF l]
    have fo: "file_outcome cfg w req i fi rows = Some (err, rows1)"
      using p c by (simp add: file_outcome_def)
    show ?thesis
    proof (cases err)
      case None
      with o fo f fl(4) show ?thesis
        by (simp add: status_events_def error_events_def
            fl(1-3)[unfolded status_events_def error_events_def])
    next
      case (Some e)
      with o fo f fl(4) show ?thesis
        by (simp add: status_events_def error_events_def mark_failed_def
            fl(1-3)[unfolded status_events_def error_events_def])
    qed
  qed
qed

lemma other_file_filters:
  assumes "list_all (\<lambda>e. event_file e \<noteq> idx) evs"
  shows "status_events st idx evs = []" "error_events idx evs = []"
    "chunk_loop_events idx evs = []"
  using assms
  by (induction evs) (auto simp: status_events_def error_events_def chunk_loop_events_def)

lemma selections_append:
  "status_events st idx (xs @ ys) = status_events st idx xs @ status_events st idx ys"
  "error_events idx (xs @ ys) = error_events idx xs @ error_events idx ys"
  "chunk_loop_events idx (xs @ ys) = chunk_loop_events idx xs @ chunk_loop_events idx ys"
  by (simp_all add: status_events_def error_events_def chunk_loop_events_def)

lemma file_settled_append_right:
  assumes "file_settled cfg w req idx fi rb fd evs1" "list_all (\<lambda>e. event_file e \<noteq> idx) evs2"
  shows "file_settled cfg w req idx fi rb fd (evs1 @ evs2)"
  using assms(1) unfolding file_settled_def selections_append other_file_filters[OF assms(2)]
  by simp

lemma file_settled_append_left:
  assumes "file_settled cfg w req idx fi rb fd evs2" "list_all (\<lambda>e. event_file e \<noteq> idx) evs1"
  shows "file_settled cfg w req idx fi rb fd (evs1 @ evs2)"
  using assms(1) unfolding file_settled_def selections_append other_file_filters[OF assms(2)]
  by simp

lemma one_file_settled:
  assumes "chunk_overlap cfg < chunk_size cfg"
  shows "\<exists>evs fd rows1 err. one_file cfg w req F i fi prev rows = Some (evs, fd, rows1)
     \<and> file_outcome cfg w req i fi rows = Some (err, rows1)
     \<and> list_all (\<lambda>e. event_file e = i \<and> \<not> is_complete e) evs
     \<and> file_settled cfg w req i fi rows fd evs"
  using one_file_outcome[OF assms, of w req F i fi prev rows]
  unfolding file_settled_def by blast

text \<open>
  The loop over the files returns, and it hands every file the table that the stages of
  the files before it leave.
\<close>

lemma run_files_settled:
  assumes "chunk_overlap cfg < chunk_size cfg"
  shows "\<exists>evs new rows'. run_files cfg w req F k fs prev rows = Some (evs, prev @ new, rows')
     \<and> length new = length fs
     \<and> list_all (\<lambda>e. k \<le> event_file e \<and> event_file e < k + length fs \<and> \<not> is_complete e) evs
     \<and> table_before cfg w req k fs rows (length fs) = Some rows'
     \<and> (\<forall>i<length fs. \<exists>rows_i.
           table_before cfg w req k fs rows i = Some rows_i
         \<and> file_settled cfg w req (k + i) (fs ! i) rows_i (new ! i) evs)"
proof (induction fs arbitrary: k prev rows)
  case Nil
  show ?case by simp
next
  case (Cons fi rest)
  from one_file_settled[OF assms, of w req F k fi prev rows]
  obtain evs1 fd rows1 err where
    o: "one_file cfg w req F k fi prev rows = Some (evs1, fd, rows1)"
    and fo: "file_outcome cfg w req k fi rows = Some (err, rows1)"
    and l1: "list_all (\<lambda>e. event_file e = k \<and> \<not> is_complete e) evs1"
    and s1: "file_settled cfg w req k fi rows fd evs1" by blast
  from Cons.IH[of "Suc k" "prev @ [fd]" rows1]
  obtain evs2 new2 rows2 where
    r: "run_files cfg w req F (Suc k) rest (prev @ [fd]) rows1 = Some (evs2, (prev @ [fd]) @ new2, rows2)"
    and n2: "length new2 = length rest"
    and l2: "list_all (\<lambda>e. Suc k \<le> event_file e \<and> event_file e < Suc k + length rest \<and> \<not> is_complete e) evs2"
    and t2: "table_before cfg w req (Suc k) rest rows1 (length rest) = Some rows2"
    and s2: "\<forall>i<length rest. \<exists>rows_i.
               table_before cfg w req (Suc k) rest rows1 i = Some rows_i
             \<and> file_settled cfg w req (Suc k + i) (rest ! i) rows_i (new2 ! i) evs2"
    by blast
  have run: "run_files cfg w req F k (fi # rest) prev rows = Some (evs1 @ evs2, prev @ (fd # new2), rows2)"
    using o r by simp
  have len: "length (fd # new2) = length (fi # rest)" using n2 by simp
  have rng: "list_all (\<lambda>e. k \<le> event_file e \<and> event_file e < k + length (fi # rest) \<and> \<not> is_complete e) (evs1 @ evs2)"
    using l1 l2 by (auto simp: list_all_iff)
  have tb: "table_before cfg w req k (fi # rest) rows (Suc n)
            = table_before cfg w req (Suc k) rest rows1 n" for n
    using fo by simp
  have fin: "table_before cfg w req k (fi # rest) rows (length (fi # rest)) = Some rows2"
    using tb[of "length rest"] t2 by simp
  have settled: "\<exists>rows_i. table_before cfg w req k (fi # rest) rows i = Some rows_i
                  \<and> file_settled cfg w req (k + i) ((fi # rest) ! i) rows_i ((fd # new2) ! i) (evs1 @ evs2)"
    if "i < length (fi # rest)" for i
  proof (cases i)
    case 0
    have "list_all (\<lambda>e. event_file e \<noteq> k) evs2" using l2 by (auto simp: list_all_iff)
    from file_settled_append_right[OF s1 this] 0 show ?thesis by simp
  next
    case (Suc i')
    with that have i': "i' < length rest" by simp
    from s2[rule_format, OF i'] obtain rows_i where
      ti: "table_before cfg w req (Suc k) rest rows1 i' = Some rows_i"
      and si: "file_settled cfg w req (Suc k + i') (rest ! i') rows_i (new2 ! i') evs2" by blast
    have "list_all (\<lambda>e. event_file e \<noteq> Suc k + i') evs1" using l1 by (auto simp: list_all_iff)
    from file_settled_append_left[OF si this] ti tb[of i'] Suc show ?thesis by simp
  qed
  from run len rng fin settled show ?case by blast
qed

lemma sorted_push: "p \<le> q \<Longrightarrow> sorted (q # ps) \<Longrightarrow> sorted (p # ps)"
  for p q :: int
  by (induction ps) auto

lemma embed_chunks_percentages:
  "embed_chunks w req fi F i C j cs prev fd rows = (evs, fd', rows', err) \<Longrightarrow>
   1 \<le> i \<Longrightarrow> 0 < F \<Longrightarrow> 0 < C \<Longrightarrow> sorted (pct_chunk F i C j # percentages evs)"
proof (induction cs arbitrary: j fd rows evs fd' rows' err)
  case Nil
  then show ?case by simp
next
  case (Cons c cs)
  show ?case
  proof (cases "generate_embedding (w_embed w i j)")
    case (Inl e)
    with Cons.prems show ?thesis by (auto simp: Let_def)
  next
    case (Inr emb)
    show ?thesis
    proof (cases "store_embedding (w_db w i j) (knowledge_base_id req) (version_id req)
                    (fi_id fi) (int j - 1) (c_text c) emb (c_metadata c) (db_config req) rows")
      case (Inl e)
      with Inr Cons.prems show ?thesis by (auto simp: Let_def)
    next
      case st: (Inr rows1)
      let ?fd2 = "fd\<lparr>fd_chunks_done := j, fd_percentage := pct_of_file C j,
                    fd_status := Embedding, fd_status := Storing\<rparr>"
      obtain evs2 fd3 rows2 err2 where
        r: "embed_chunks w req fi F i C (Suc j) cs prev ?fd2 rows1 = (evs2, fd3, rows2, err2)"
        by (metis prod_cases4)
      have le: "pct_chunk F i C j \<le> pct_chunk F i C (Suc j)"
        using Cons.prems by (intro pct_chunk_mono) simp_all
      from Cons.IH[OF r Cons.prems(2-4)] have "sorted (pct_chunk F i C (Suc j) # percentages evs2)" .
      with le have s: "sorted (pct_chunk F i C j # percentages evs2)" by (rule sorted_push)
      have "evs = Progress i F j C (pct_chunk F i C j) Embedding
                    (prev @ [fd\<lparr>fd_chunks_done := j, fd_percentage := pct_of_file C j,
                                 fd_status := Embedding\<rparr>])
                  # Progress i F j C (pct_chunk F i C j) Storing (prev @ [?fd2]) # evs2"
        using Cons.prems(1) Inr st r by (simp add: Let_def)
      then show ?thesis using s by simp
    qed
  qed
qed

lemma one_file_percentages:
  assumes "chunk_overlap cfg < chunk_size cfg"
    and o: "one_file cfg w req F i fi prev rows = Some (evs, fd, rows1)"
    and i: "1 \<le> i" and F: "0 < F"
  shows "sorted (percentages (chunk_loop_events i evs))"
    and "percentages (filter at_file_boundary evs) = [pct_file_start F i]
         \<or> percentages (filter at_file_boundary evs) = [pct_file_start F i, pct_file_done F i]"
proof -
  let ?ev0 = "Progress i F 0 0 (pct_file_start F i) Processing (prev @ [initial_detail fi])"
  have ev0: "chunk_loop_events i [?ev0] = [?ev0]" "filter at_file_boundary [?ev0] = [?ev0]"
    by (simp_all add: chunk_loop_events_def in_chunk_loop_def at_file_boundary_def)
  have both: "sorted (percentages (chunk_loop_events i evs))
     \<and> (percentages (filter at_file_boundary evs) = [pct_file_start F i]
         \<or> percentages (filter at_file_boundary evs) = [pct_file_start F i, pct_file_done F i])"
    using one_file_shape[OF assms(1), of w fi req F i prev rows]
  proof (elim disjE exE conjE)
    fix e
    assume "one_file cfg w req F i fi prev rows =
                Some ([?ev0, ErrorEvent i F (prev @ [mark_failed (initial_detail fi) e]) e],
                      mark_failed (initial_detail fi) e, rows)"
    with o have "evs = [?ev0, ErrorEvent i F (prev @ [mark_failed (initial_detail fi) e]) e]" by auto
    then show ?thesis
      by (simp add: chunk_loop_events_def in_chunk_loop_def at_file_boundary_def)
  next
    fix chunks evs' fd2 rows2 err
    assume e: "embed_chunks w req fi F i (length chunks) 1 chunks prev
                 ((initial_detail fi)\<lparr>fd_chunks_total := length chunks\<rparr>) rows
                = (evs', fd2, rows2, err)"
      and o': "one_file cfg w req F i fi prev rows =
                (case err of
                   Some e \<Rightarrow>
                     Some (?ev0 # evs' @ [ErrorEvent i F (prev @ [mark_failed fd2 e]) e],
                           mark_failed fd2 e, rows2)
                 | None \<Rightarrow>
                     Some (?ev0 # evs' @ [Progress i F (length chunks) (length chunks)
                                        (pct_file_done F i) Completed
                                        (prev @ [fd2\<lparr>fd_status := Completed, fd_percentage := 100\<rparr>])],
                           fd2\<lparr>fd_status := Completed, fd_percentage := 100\<rparr>, rows2))"
    from embed_chunks_outcome[OF e] have l: "list_all (chunk_event i) evs'" by simp
    note fl = chunk_events_filters[OF l]
    have srt: "sorted (pct_file_start F i # percentages evs')"
    proof (cases chunks)
      case Nil
      with e show ?thesis by simp
    next
      case (Cons c cs)
      then have C: "0 < length chunks" by simp
      from embed_chunks_percentages[OF e i F C]
      have "sorted (pct_chunk F i (length chunks) 1 # percentages evs')" .
      moreover have "pct_file_start F i \<le> pct_chunk F i (length chunks) 1"
        using i F C by (intro pct_start_le_chunk)
      ultimately show ?thesis by (rule sorted_push[rotated])
    qed
    have tail: "chunk_loop_events i [x] = [] \<and> filter at_file_boundary [x] = (if at_file_boundary x then [x] else [])"
      if "\<not> in_chunk_loop x" for x
      using that by (simp add: chunk_loop_events_def)
    have split: "chunk_loop_events i ([?ev0] @ evs' @ [x]) = ?ev0 # evs'
                 \<and> filter at_file_boundary ([?ev0] @ evs' @ [x])
                     = ?ev0 # (if at_file_boundary x then [x] else [])"
      if "\<not> in_chunk_loop x" for x
    proof -
      have "chunk_loop_events i ([?ev0] @ evs' @ [x])
            = chunk_loop_events i [?ev0] @ chunk_loop_events i evs' @ chunk_loop_events i [x]"
        by (simp only: selections_append)
      also have "\<dots> = ?ev0 # evs'" using tail[OF that] by (simp only: ev0 fl(6)) simp
      finally have a: "chunk_loop_events i ([?ev0] @ evs' @ [x]) = ?ev0 # evs'" .
      have "filter at_file_boundary ([?ev0] @ evs' @ [x])
            = filter at_file_boundary [?ev0] @ filter at_file_boundary evs' @ filter at_file_boundary [x]"
        by (simp only: filter_append)
      also have "\<dots> = ?ev0 # (if at_file_boundary x then [x] else [])"
        by (simp only: ev0 fl(5)) simp
      finally show ?thesis using a by simp
    qed
    show ?thesis
    proof (cases err)
      case None
      let ?x = "Progress i F (length chunks) (length chunks) (pct_file_done F i) Completed
                  (prev @ [fd2\<lparr>fd_status := Completed, fd_percentage := 100\<rparr>])"
      from None o o' have evs: "evs = [?ev0] @ evs' @ [?x]" by auto
      have nx: "\<not> in_chunk_loop ?x" by (simp add: in_chunk_loop_def)
      have bx: "at_file_boundary ?x" by (simp add: at_file_boundary_def)
      from split[OF nx] bx srt show ?thesis unfolding evs by simp
    next
      case (Some x)
      let ?x = "ErrorEvent i F (prev @ [mark_failed fd2 x]) x"
      from Some o o' have evs: "evs = [?ev0] @ evs' @ [?x]" by auto
      have nx: "\<not> in_chunk_loop ?x" by (simp add: in_chunk_loop_def)
      have bx: "\<not> at_file_boundary ?x" by (simp add: at_file_boundary_def)
      from split[OF nx] bx srt show ?thesis unfolding evs by simp
    qed
  qed
  from both show "sorted (percentages (chunk_loop_events i evs))" by simp
  from both show "percentages (filter at_file_boundary evs) = [pct_file_start F i]
         \<or> percentages (filter at_file_boundary evs) = [pct_file_start F i, pct_file_done F i]" by simp
qed

section \<open>Failures of single files\<close>

text \<open>A missing file in the sample world fails at extraction.\<close>

lemma process_file_missing:
  "process_file cfg (w_fs sample_world) ''/missing'' fid mime
   = Some (Inl (FileNotFoundError ''/missing''))"
  by (simp add: process_file_def sample_world_def)

lemma one_file_missing:
  "one_file cfg sample_world req F k (sample_file fid ''/missing'') prev rows =
     Some ([Progress k F 0 0 (pct_file_start F k) Processing
              (prev @ [initial_detail (sample_file fid ''/missing'')]),
            ErrorEvent k F
              (prev @ [mark_failed (initial_detail (sample_file fid ''/missing''))
                         (FileNotFoundError ''/missing'')])
              (FileNotFoundError ''/missing'')],
           mark_failed (initial_detail (sample_file fid ''/missing''))
             (FileNotFoundError ''/missing''), rows)"
  by (simp add: one_file_def Let_def initial_detail_def sample_file_def process_file_missing)

text \<open>
  Where claim C1 fails as stated: the constructor accepts window 3 with overlap 7. In a
  job of two files under that configuration the first file fails at extraction, and the
  job never returns: the chunker does not return on the text of the second file, which
  is therefore not processed to completion.
\<close>

theorem job_hangs_after_failed_file_counterexample:
  "file_outcome (TrainingService_init 3 7) sample_world (sample_request two_files) 1
     (two_files ! 0) [] = Some (Some (FileNotFoundError ''/missing''), [])
   \<and> file_outcome (TrainingService_init 3 7) sample_world (sample_request two_files) 2
       (two_files ! 1) [] = None
   \<and> generate_progress (TrainingService_init 3 7) sample_world (sample_request two_files) []
       = None"
proof -
  let ?cfg = "TrainingService_init 3 7"
  have d: "chunk_text ?cfg ''abcde'' md = None" for md
    by (rule chunk_text_diverges) (simp_all add: TrainingService_init_def)
  have p: "process_file ?cfg (w_fs sample_world) ''/data/c.txt'' fid mime = None" for fid mime
  proof -
    have "py_strip ''abcde'' \<noteq> []" by code_simp
    then show ?thesis by (simp add: process_file_def sample_world_def Let_def d)
  qed
  have o1: "file_outcome ?cfg sample_world (sample_request two_files) 1 (two_files ! 0) []
            = Some (Some (FileNotFoundError ''/missing''), [])"
    by (simp add: file_outcome_def two_files_def sample_file_def process_file_missing)
  have o2: "file_outcome ?cfg sample_world (sample_request two_files) 2 (two_files ! 1) [] = None"
    by (simp add: file_outcome_def two_files_def sample_file_def p)
  have f2: "one_file ?cfg sample_world req F k (sample_file ''13'' ''/data/c.txt'') prev rows = None"
    for req F k prev rows
    by (simp add: one_file_def Let_def sample_file_def p)
  have rf: "run_files ?cfg sample_world req F k two_files prev rows = None" for req F k prev rows
    unfolding two_files_def by (simp add: one_file_missing f2)
  have fs: "files (sample_request two_files) = two_files" by (simp add: sample_request_def)
  have "generate_progress ?cfg sample_world (sample_request two_files) [] = None"
    by (simp add: generate_progress_def Let_def fs rf)
  with o1 o2 show ?thesis by simp
qed

text \<open>
  Claim C1, amended: under a configuration whose window is larger than its overlap. Then
  every job returns and ends with the completion event, the only one of its kind, and
  leaves the table that the stages of all its files leave. Every file of the job is
  settled on the table that the stages of the files before it leave, whether those
  failed or not: its own stages have run on that table to their first exception or to
  the end, its detail record is failed with that exception or completed, and the job
  has emitted one processing event for it, exactly one error event when it failed and
  none otherwise, and one completed event exactly when it did not fail. A file whose
  extraction, embedding or storage raises therefore neither stops the files after it nor
  changes what they find or what is reported for them. In the example the second of
  three files is missing: the job reports completed, failed, completed.
\<close>

theorem generate_progress_isolates_failures:
  assumes "chunk_overlap cfg < chunk_size cfg"
  shows "\<exists>evs ds rows'.
           generate_progress cfg w req rows = Some (evs, ds, rows')
         \<and> length ds = length (files req)
         \<and> (\<exists>evs0. evs = evs0 @ [Complete (length (files req)) (length (files req)) 100]
                   \<and> list_all (\<lambda>e. \<not> is_complete e) evs0)
         \<and> table_before cfg w req 1 (files req) rows (length (files req)) = Some rows'
         \<and> (\<forall>i<length (files req). \<exists>rows_i.
               table_before cfg w req 1 (files req) rows i = Some rows_i
             \<and> file_settled cfg w req (Suc i) (files req ! i) rows_i (ds ! i) evs)"
proof -
  let ?F = "length (files req)"
  from run_files_settled[OF assms, of w req ?F 1 "files req" "[]" rows]
  obtain evs0 new rows' where
    r: "run_files cfg w req ?F 1 (files req) [] rows = Some (evs0, new, rows')"
    and n: "length new = ?F"
    and l: "list_all (\<lambda>e. 1 \<le> event_file e \<and> event_file e < 1 + ?F \<and> \<not> is_complete e) evs0"
    and t: "table_before cfg w req 1 (files req) rows ?F = Some rows'"
    and s: "\<forall>i<?F. \<exists>rows_i. table_before cfg w req 1 (files req) rows i = Some rows_i
              \<and> file_settled cfg w req (1 + i) (files req ! i) rows_i (new ! i) evs0"
    by auto
  have g: "generate_progress cfg w req rows = Some (evs0 @ [Complete ?F ?F 100], new, rows')"
    using r by (simp add: generate_progress_def Let_def)
  have nc: "list_all (\<lambda>e. \<not> is_complete e) evs0" using l by (auto simp: list_all_iff)
  have "\<exists>rows_i. table_before cfg w req 1 (files req) rows i = Some rows_i
          \<and> file_settled cfg w req (Suc i) (files req ! i) rows_i (new ! i)
                (evs0 @ [Complete ?F ?F 100])"
    if "i < ?F" for i
  proof -
    from s that obtain rows_i where
      ti: "table_before cfg w req 1 (files req) rows i = Some rows_i"
      and a: "file_settled cfg w req (Suc i) (files req ! i) rows_i (new ! i) evs0" by auto
    have "file_settled cfg w req (Suc i) (files req ! i) rows_i (new ! i)
            (evs0 @ [Complete ?F ?F 100])"
      using a unfolding file_settled_def selections_append
      by (simp add: status_events_def error_events_def)
    with ti show ?thesis by blast
  qed
  with g n nc t show ?thesis by blast
qed

theorem generate_progress_isolates_failures_witness:
  "chunk_overlap sample_config < chunk_size sample_config
   \<and> (\<exists>evs ds rows'.
         generate_progress sample_config sample_world (sample_request three_files) []
           = Some (evs, ds, rows')
       \<and> length ds = 3
       \<and> fd_status (ds ! 0) = Completed
       \<and> fd_status (ds ! 1) = Failed
       \<and> fd_status (ds ! 2) = Completed
       \<and> fd_error (ds ! 1) = Some (FileNotFoundError ''/missing'')
       \<and> length (error_events 1 evs) = 0
       \<and> length (error_events 2 evs) = 1
       \<and> length (error_events 3 evs) = 0
       \<and> length (status_events Completed 1 evs) = 1
       \<and> length (status_events Completed 2 evs) = 0
       \<and> length (status_events Completed 3 evs) = 1
       \<and> is_complete (last evs))"
proof -
  let ?req = "sample_request three_files"
  have st: "chunk_overlap sample_config < chunk_size sample_config"
    by (simp add: sample_config_def)
  have len: "length (files ?req) = 3"
    by (simp add: sample_request_def three_files_def)
  have o: "map (\<lambda>i. map_option
                     (\<lambda>rows_i. map_option fst
                        (file_outcome sample_config sample_world ?req (Suc i) (files ?req ! i) rows_i))
                     (table_before sample_config sample_world ?req 1 (files ?req) [] i))
             [0, 1, 2]
           = [Some (Some None), Some (Some (Some (FileNotFoundError ''/missing''))),
              Some (Some None)]"
    by code_simp
  from generate_progress_isolates_failures[OF st, of sample_world ?req "[]"]
  obtain evs ds rows' evs0 where
    g: "generate_progress sample_config sample_world ?req [] = Some (evs, ds, rows')"
    and l: "length ds = 3"
    and e: "evs = evs0 @ [Complete 3 3 100]"
    and s: "\<And>i. i < 3 \<Longrightarrow> \<exists>rows_i.
               table_before sample_config sample_world ?req 1 (files ?req) [] i = Some rows_i
             \<and> file_settled sample_config sample_world ?req (Suc i) (files ?req ! i) rows_i
                   (ds ! i) evs"
    unfolding len by blast
  have s0: "fd_status (ds ! 0) = Completed \<and> length (error_events 1 evs) = 0
            \<and> length (status_events Completed 1 evs) = 1"
    using s[of 0] o unfolding file_settled_def by auto
  have s1: "fd_status (ds ! 1) = Failed \<and> fd_error (ds ! 1) = Some (FileNotFoundError ''/missing'')
            \<and> length (error_events 2 evs) = 1 \<and> length (status_events Completed 2 evs) = 0"
    using s[of 1] o unfolding file_settled_def by (auto simp: numeral_2_eq_2)
  have s2: "fd_status (ds ! 2) = Completed \<and> length (error_events 3 evs) = 0
            \<and> length (status_events Completed 3 evs) = 1"
    using s[of 2] o unfolding file_settled_def by (auto simp: numeral_3_eq_3 numeral_2_eq_2)
  have "is_complete (last evs)" unfolding e by simp
  with st g l s0 s1 s2 show ?thesis by blast
qed

section \<open>Percentages along a job\<close>

lemma run_files_Cons_Some:
  assumes "run_files cfg w req F k (fi # rest) prev rows = Some (evs, ds, rows')"
  obtains evs1 fd rows1 evs2 where
    "one_file cfg w req F k fi prev rows = Some (evs1, fd, rows1)"
    "run_files cfg w req F (Suc k) rest (prev @ [fd]) rows1 = Some (evs2, ds, rows')"
    "evs = evs1 @ evs2"
  using assms by (auto split: option.splits)

lemma run_files_percentages:
  assumes st: "chunk_overlap cfg < chunk_size cfg"
  shows "run_files cfg w req F k fs prev rows = Some (evs, ds, rows') \<Longrightarrow>
     1 \<le> k \<Longrightarrow> k + length fs \<le> Suc F \<Longrightarrow> 0 < F \<Longrightarrow>
     (\<forall>i. sorted (percentages (chunk_loop_events i evs)))
     \<and> sorted (percentages (filter at_file_boundary evs))
     \<and> (\<forall>p \<in> set (percentages (filter at_file_boundary evs)). pct_file_start F k \<le> p \<and> p \<le> 100)
     \<and> list_all (\<lambda>e. k \<le> event_file e \<and> \<not> is_complete e) evs"
proof (induction fs arbitrary: k prev rows evs)
  case Nil
  then show ?case by (auto simp: chunk_loop_events_def)
next
  case (Cons fi rest)
  from Cons.prems(1) obtain evs1 fd rows1 evs2 where
    o: "one_file cfg w req F k fi prev rows = Some (evs1, fd, rows1)"
    and r: "run_files cfg w req F (Suc k) rest (prev @ [fd]) rows1 = Some (evs2, ds, rows')"
    and evs: "evs = evs1 @ evs2"
    by (rule run_files_Cons_Some)
  have k: "1 \<le> Suc k" "Suc k + length rest \<le> Suc F" "k \<le> F" using Cons.prems by simp_all
  from Cons.IH[OF r k(1,2) Cons.prems(4)]
  have a2: "\<And>i. sorted (percentages (chunk_loop_events i evs2))"
    and b2: "sorted (percentages (filter at_file_boundary evs2))"
    and r2: "\<And>p. p \<in> set (percentages (filter at_file_boundary evs2)) \<Longrightarrow>
               pct_file_start F (Suc k) \<le> p \<and> p \<le> 100"
    and l2: "list_all (\<lambda>e. Suc k \<le> event_file e \<and> \<not> is_complete e) evs2"
    by blast+
  from one_file_outcome[OF st, of w req F k fi prev rows] o
  have l1: "list_all (\<lambda>e. event_file e = k \<and> \<not> is_complete e) evs1" by auto
  note p1 = one_file_percentages[OF st o Cons.prems(2) Cons.prems(4)]
  have sd: "pct_file_start F k \<le> pct_file_done F k"
    unfolding pct_done_eq_next_start using Cons.prems by (intro pct_file_start_mono) simp_all
  have d100: "pct_file_done F k \<le> 100" using k(3) Cons.prems(4) by (rule pct_file_done_le_100)
  have ds: "pct_file_done F k = pct_file_start F (Suc k)" by (rule pct_done_eq_next_start)
  have A: "sorted (percentages (chunk_loop_events i evs))" for i
  proof (cases "i = k")
    case True
    have "list_all (\<lambda>e. event_file e \<noteq> k) evs2" using l2 by (auto simp: list_all_iff)
    from other_file_filters(3)[OF this] p1(1) True show ?thesis
      by (simp add: evs selections_append)
  next
    case False
    have "list_all (\<lambda>e. event_file e \<noteq> i) evs1" using l1 False by (auto simp: list_all_iff)
    from other_file_filters(3)[OF this] a2[of i] show ?thesis
      by (simp add: evs selections_append)
  qed
  let ?B1 = "percentages (filter at_file_boundary evs1)"
  let ?B2 = "percentages (filter at_file_boundary evs2)"
  have B: "percentages (filter at_file_boundary evs) = ?B1 @ ?B2" by (simp add: evs)
  have b1: "sorted ?B1" and r1: "\<And>p. p \<in> set ?B1 \<Longrightarrow> pct_file_start F k \<le> p \<and> p \<le> pct_file_done F k"
    using p1(2) sd by auto
  have S: "sorted (?B1 @ ?B2)"
    unfolding sorted_append using b1 b2 r1 r2 ds by fastforce
  have R: "pct_file_start F k \<le> p \<and> p \<le> 100" if "p \<in> set (?B1 @ ?B2)" for p
    using that r1[of p] r2[of p] sd ds d100 by auto
  have L: "list_all (\<lambda>e. k \<le> event_file e \<and> \<not> is_complete e) evs"
    using l1 l2 by (auto simp: evs list_all_iff)
  from A S R L show ?case unfolding B by blast
qed

text \<open>
  The percentages of the events of one file do not depend on the detail records of the
  files before it.
\<close>

lemma embed_chunks_prev_irrelevant:
  "(case embed_chunks w req fi F i C j cs prev fd rows of (evs, r) \<Rightarrow> (percentages evs, r))
   = (case embed_chunks w req fi F i C j cs [] fd rows of (evs, r) \<Rightarrow> (percentages evs, r))"
proof (induction cs arbitrary: j fd rows)
  case Nil
  show ?case by simp
next
  case (Cons c cs)
  show ?case
  proof (cases "generate_embedding (w_embed w i j)")
    case (Inl e)
    then show ?thesis by (simp add: Let_def)
  next
    case (Inr emb)
    show ?thesis
    proof (cases "store_embedding (w_db w i j) (knowledge_base_id req) (version_id req)
                    (fi_id fi) (int j - 1) (c_text c) emb (c_metadata c) (db_config req) rows")
      case (Inl e)
      with Inr show ?thesis by (simp add: Let_def)
    next
      case st: (Inr rows1)
      let ?fd2 = "fd\<lparr>fd_chunks_done := j, fd_percentage := pct_of_file C j,
                    fd_status := Embedding, fd_status := Storing\<rparr>"
      from Cons.IH[of "Suc j" ?fd2 rows1] Inr st show ?thesis
        by (simp add: Let_def split: prod.splits)
    qed
  qed
qed

lemma one_file_prev_irrelevant:
  "map_option (\<lambda>(evs, r). (percentages evs, r)) (one_file cfg w req F i fi prev rows)
   = map_option (\<lambda>(evs, r). (percentages evs, r)) (one_file cfg w req F i fi [] rows)"
proof (cases "process_file cfg (w_fs w) (fi_path fi) (fi_id fi) (fi_mime_type fi)")
  case None
  then show ?thesis by (simp add: one_file_def Let_def)
next
  case (Some r)
  show ?thesis
  proof (cases r)
    case (Inl e)
    with Some show ?thesis by (simp add: one_file_def Let_def)
  next
    case (Inr chunks)
    from embed_chunks_prev_irrelevant[of w req fi F i "length chunks" "Suc 0" chunks prev
        "(initial_detail fi)\<lparr>fd_chunks_total := length chunks\<rparr>" rows]
    show ?thesis using Some Inr
      unfolding one_file_def Let_def initial_detail_def[symmetric]
      by (auto split: prod.splits option.splits)
  qed
qed

lemma file29:
  "map_option (\<lambda>(evs, r). percentages evs)
     (one_file sample_config sample_world (sample_request fifty_files) 50 29
        (sample_file ''29'' ''/data/a.txt'') [] [])
   = Some [56, 57, 57, 58, 58, 57]"
  by code_simp

lemma run_files_Cons_percentages:
  "one_file cfg w req F k fi prev rows = Some (evs1, fd, rows1) \<Longrightarrow>
   map_option (\<lambda>r. percentages (fst r)) (run_files cfg w req F k (fi # rest) prev rows)
   = map_option (\<lambda>r. percentages evs1 @ percentages (fst r))
       (run_files cfg w req F (Suc k) rest (prev @ [fd]) rows1)"
  by (simp split: option.splits)

lemma run_files_missing:
  "\<exists>prev'. map_option (\<lambda>r. percentages (fst r))
            (run_files cfg sample_world req F k
               (replicate n (sample_file fid ''/missing'') @ rest) prev rows)
        = map_option (\<lambda>r. map (pct_file_start F) [k..<k + n] @ percentages (fst r))
            (run_files cfg sample_world req F (k + n) rest prev' rows)"
proof (induction n arbitrary: k prev)
  case 0
  show ?case by (rule exI[of _ prev]) simp
next
  case (Suc n)
  let ?fd = "mark_failed (initial_detail (sample_file fid ''/missing'')) (FileNotFoundError ''/missing'')"
  from Suc.IH[of "Suc k" "prev @ [?fd]"] obtain prev' where
    ih: "map_option (\<lambda>r. percentages (fst r))
            (run_files cfg sample_world req F (Suc k)
               (replicate n (sample_file fid ''/missing'') @ rest) (prev @ [?fd]) rows)
        = map_option (\<lambda>r. map (pct_file_start F) [Suc k..<Suc k + n] @ percentages (fst r))
            (run_files cfg sample_world req F (Suc k + n) rest prev' rows)" by blast
  have up: "[k..<k + Suc n] = k # [Suc k..<Suc k + n]" by (simp add: upt_conv_Cons)
  have "map_option (\<lambda>r. percentages (fst r))
            (run_files cfg sample_world req F k
               (replicate (Suc n) (sample_file fid ''/missing'') @ rest) prev rows)
        = map_option (\<lambda>p. pct_file_start F k # p)
            (map_option (\<lambda>r. percentages (fst r))
               (run_files cfg sample_world req F (Suc k)
                  (replicate n (sample_file fid ''/missing'') @ rest) (prev @ [?fd]) rows))"
    using run_files_Cons_percentages[OF one_file_missing[of cfg req F k fid prev rows],
        of "replicate n (sample_file fid ''/missing'') @ rest"]
    by (simp add: option.map_comp comp_def)
  also have "\<dots> = map_option (\<lambda>r. map (pct_file_start F) [k..<k + Suc n] @ percentages (fst r))
            (run_files cfg sample_world req F (k + Suc n) rest prev' rows)"
    unfolding ih up by (simp add: option.map_comp comp_def)
  finally show ?case by blast
qed

lemma generate_progress_percentages:
  "map_option (\<lambda>r. percentages (fst r)) (generate_progress cfg w req rows)
   = map_option (\<lambda>r. percentages (fst r) @ [100])
       (run_files cfg w req (length (files req)) 1 (files req) [] rows)"
  by (simp add: generate_progress_def Let_def split: option.splits)

text \<open>
  Where claim C3 fails as stated: in a job of fifty files whose twenty-ninth file has two
  chunks, the events of that file carry the percentages 56, 57, 57, 58, 58 and then, on
  completion, 57. The sum of the rounded quotients \<open>28/50\<close> and \<open>1/50\<close> lies above the
  rounded quotient \<open>29/50\<close>, and the factor 100 moves the two to different sides
  of 58.
\<close>

theorem percentage_drops_at_completion_counterexample:
  "map_option (\<lambda>r. take 6 (drop 28 (percentages (fst r))))
     (generate_progress sample_config sample_world (sample_request fifty_files) [])
   = Some [56, 57, 57, 58, 58, 57]"
proof -
  let ?req = "sample_request fifty_files"
  let ?mf = "sample_file ''0'' ''/missing''"
  let ?f29 = "sample_file ''29'' ''/data/a.txt''"
  have F: "length (files ?req) = 50" and fs: "files ?req = replicate 28 ?mf @ (?f29 # replicate 21 ?mf @ [])"
    by (simp_all add: sample_request_def fifty_files_def)
  from run_files_missing[of sample_config ?req 50 1 28 "''0''" "?f29 # replicate 21 ?mf @ []" "[]" "[]"]
  obtain prev1 where
    a: "map_option (\<lambda>r. percentages (fst r))
          (run_files sample_config sample_world ?req 50 1 (files ?req) [] [])
        = map_option (\<lambda>r. map (pct_file_start 50) [1..<29] @ percentages (fst r))
            (run_files sample_config sample_world ?req 50 29 (?f29 # replicate 21 ?mf @ []) prev1 [])"
    unfolding fs by auto
  from file29 one_file_prev_irrelevant[of sample_config sample_world ?req 50 29 ?f29 prev1 "[]"]
  obtain evs1 fd rows1 where
    o: "one_file sample_config sample_world ?req 50 29 ?f29 prev1 [] = Some (evs1, fd, rows1)"
    and p: "percentages evs1 = [56, 57, 57, 58, 58, 57]"
    by (cases "one_file sample_config sample_world ?req 50 29 ?f29 prev1 []";
        cases "one_file sample_config sample_world ?req 50 29 ?f29 [] []") auto
  from run_files_missing[of sample_config ?req 50 30 21 "''0''" "[]" "prev1 @ [fd]" rows1]
  obtain prev2 where
    c: "map_option (\<lambda>r. percentages (fst r))
          (run_files sample_config sample_world ?req 50 30 (replicate 21 ?mf @ []) (prev1 @ [fd]) rows1)
        = Some (map (pct_file_start 50) [30..<51])"
    by auto
  have b: "map_option (\<lambda>r. percentages (fst r))
            (run_files sample_config sample_world ?req 50 29 (?f29 # replicate 21 ?mf @ []) prev1 [])
           = Some ([56, 57, 57, 58, 58, 57] @ map (pct_file_start 50) [30..<51])"
    unfolding run_files_Cons_percentages[OF o] p
    using c by (cases "run_files sample_config sample_world ?req 50 30 (replicate 21 ?mf @ []) (prev1 @ [fd]) rows1") auto
  have m: "map_option (\<lambda>r. percentages (fst r)) (generate_progress sample_config sample_world ?req [])
        = Some (map (pct_file_start 50) [1..<29] @ [56, 57, 57, 58, 58, 57]
                @ (map (pct_file_start 50) [30..<51] @ [100]))"
    unfolding generate_progress_percentages F
    using a b
    by (cases "run_files sample_config sample_world ?req 50 1 (files ?req) [] []";
        cases "run_files sample_config sample_world ?req 50 29 (?f29 # replicate 21 ?mf @ []) prev1 []")
       auto
  then obtain r where gr: "generate_progress sample_config sample_world ?req [] = Some r"
    and pr: "percentages (fst r) = map (pct_file_start 50) [1..<29] @ [56, 57, 57, 58, 58, 57]
                @ (map (pct_file_start 50) [30..<51] @ [100])"
    by (cases "generate_progress sample_config sample_world ?req []") auto
  have d: "take 6 (drop 28 (map (pct_file_start 50) [1..<29] @ [56, 57, 57, 58, 58, 57] @ ys))
           = [56, 57, 57, 58, 58, 57]" for ys :: "int list"
    by simp
  show ?thesis unfolding gr by (simp only: option.map pr d)
qed

text \<open>
  Claim C3, amended. With a window larger than the overlap, every job returns, and the
  overall percentage is non-decreasing along two selections of its events: for every
  file, along the processing event and the embedding and storing events of that file,
  that is, through the chunk loop of the file; and along the processing events, the
  completed events and the completion event of the whole job, that is, from file boundary
  to file boundary, whether the files between succeed or fail.
\<close>

theorem progress_percentages_sorted:
  assumes "chunk_overlap cfg < chunk_size cfg"
  shows "\<exists>evs ds rows'.
           generate_progress cfg w req rows = Some (evs, ds, rows')
         \<and> (\<forall>i. sorted (percentages (chunk_loop_events i evs)))
         \<and> sorted (percentages (filter at_file_boundary evs))"
proof -
  let ?F = "length (files req)"
  from run_files_settled[OF assms, of w req ?F 1 "files req" "[]" rows]
  obtain evs0 ds rows' where
    r: "run_files cfg w req ?F 1 (files req) [] rows = Some (evs0, ds, rows')" by auto
  have g: "generate_progress cfg w req rows = Some (evs0 @ [Complete ?F ?F 100], ds, rows')"
    using r by (simp add: generate_progress_def Let_def)
  have c: "chunk_loop_events i [Complete ?F ?F 100] = []" for i
    by (simp add: chunk_loop_events_def in_chunk_loop_def)
  have b: "filter at_file_boundary [Complete ?F ?F 100] = [Complete ?F ?F 100]"
    by (simp add: at_file_boundary_def)
  show ?thesis
  proof (cases "?F = 0")
    case True
    with r have "evs0 = []" by simp
    with g show ?thesis by (simp add: chunk_loop_events_def at_file_boundary_def)
  next
    case False
    then have F: "0 < ?F" by simp
    from run_files_percentages[OF assms r _ _ F]
    have a: "\<And>i. sorted (percentages (chunk_loop_events i evs0))"
      and s: "sorted (percentages (filter at_file_boundary evs0))"
      and u: "\<And>p. p \<in> set (percentages (filter at_file_boundary evs0)) \<Longrightarrow> p \<le> 100"
      by auto
    have "sorted (percentages (filter at_file_boundary (evs0 @ [Complete ?F ?F 100])))"
      using s u by (simp add: b sorted_append)
    moreover have "sorted (percentages (chunk_loop_events i (evs0 @ [Complete ?F ?F 100])))" for i
      using a[of i] by (simp add: selections_append c)
    ultimately show ?thesis using g by blast
  qed
qed

theorem progress_percentages_sorted_witness:
  "chunk_overlap sample_config < chunk_size sample_config
   \<and> (\<exists>evs ds rows'.
         generate_progress sample_config sample_world (sample_request three_files) []
           = Some (evs, ds, rows')
       \<and> sorted (percentages (chunk_loop_events 1 evs))
       \<and> sorted (percentages (chunk_loop_events 3 evs))
       \<and> sorted (percentages (filter at_file_boundary evs)))"
proof -
  have st: "chunk_overlap sample_config < chunk_size sample_config"
    by (simp add: sample_config_def)
  from progress_percentages_sorted[OF st, of sample_world "sample_request three_files" "[]"] st
  show ?thesis by blast
qed

end
